theory Spec2Isabelle
  imports Main "HOL-Library.AList"
begin

section \<open>The form store (useStore): data model\<close>

text \<open>
  The embedding follows the hook \<open>useStore\<close> and the component \<open>Form\<close>.

  \<^item> A JavaScript object is a finite mapping from property names to values. The field
    store \<open>FieldsState\<close> is an association list from field names to records, in
    insertion order; the object spread \<open>{...state, [name]: r}\<close> is \<open>AList.update\<close>
    (replace in place, or append). The order in which JavaScript enumerates names
    that look like array indices is not modelled; no property below depends on it.
    Reading a name of a plain object gives its own property or, when it has none of
    that name, the member that every object inherits (\<open>constructor\<close>, \<open>toString\<close>,
    ...): see \<open>objectPrototype\<close> and \<open>fieldTruthy\<close>.
  \<^item> A property that an object does not have reads as \<open>undefined\<close>. Every property
    of a field record is therefore an \<open>option\<close>: \<open>None\<close> is "absent or undefined".
    The reducer can build such partial records (\<open>{...undefined, value: v}\<close>).
  \<^item> Field values (type \<open>any\<close> in the actions) are a type parameter \<open>'v\<close>; the rule
    descriptors of the validation library (\<open>RuleItem\<close>) are a type parameter \<open>'r\<close>.
  \<^item> The validation library is not part of the repository: the validators take it as
    a parameter \<open>engine\<close>, a function from the descriptor and the value map to the
    outcome of the awaited promise.
  \<^item> \<open>dispatch\<close> and \<open>setForm\<close> are effects: the operations return the list of
    effects they issue, in program order; a thrown error is \<open>Inl\<close>.
  \<^item> A rule generator is code of the form's author: called with the accessor it
    returns a rule or throws.
\<close>

datatype error = TypeError | Thrown string

record validate_error =
  message :: string
  field :: string

datatype ('v, 'r) custom_rule =
    Static 'r
  | Generator "(string \<Rightarrow> 'v option) \<Rightarrow> error + 'r"

record ('v, 'r) field_detail =
  label :: "string option"
  name :: "string option"
  "value" :: "'v option"
  rules :: "('v, 'r) custom_rule list option"
  isValid :: "bool option"
  errors :: "validate_error list option"

type_synonym ('v, 'r) fields_state = "(string \<times> ('v, 'r) field_detail) list"

type_synonym error_fields = "(string \<times> validate_error list) list"

record form_state =
  form_isValid :: bool
  isSubmitting :: bool
  form_errors :: "error_fields option"

datatype ('v, 'r) fields_action =
    AddField string "('v, 'r) field_detail"
  | UpdateValue string "'v option"
  | UpdateValidateResult string bool "validate_error list option"

section \<open>The reducer\<close>

definition empty_object :: "('v, 'r) field_detail" where
  "empty_object =
     \<lparr>label = None, name = None, value = None, rules = None, isValid = None, errors = None\<rparr>"

text \<open>
  \<open>{...x}\<close> for \<open>x = state[name]\<close>: spreading \<open>undefined\<close> copies no property, and
  neither does spreading an inherited member (a function, or the prototype object,
  which have no enumerable property of their own), so both are \<open>None\<close> here. The
  three cases of \<open>fieldsReducer\<close> are the three tags of \<open>FieldsAction\<close>; the \<open>default\<close>
  branch of the \<open>switch\<close> is for no action of that type.
\<close>

fun spread :: "('v, 'r) field_detail option \<Rightarrow> ('v, 'r) field_detail" where
  "spread None = empty_object"
| "spread (Some f) = f"

fun fieldsReducer ::
  "('v, 'r) fields_state \<Rightarrow> ('v, 'r) fields_action \<Rightarrow> ('v, 'r) fields_state" where
  "fieldsReducer state (AddField n payload) = AList.update n payload state"
| "fieldsReducer state (UpdateValue n v) =
     AList.update n ((spread (map_of state n))\<lparr>value := v\<rparr>) state"
| "fieldsReducer state (UpdateValidateResult n b es) =
     AList.update n ((spread (map_of state n))\<lparr>isValid := Some b, errors := es\<rparr>) state"

text \<open>The reducer applied to the dispatched actions, in the order of the dispatches.\<close>

definition dispatchAll ::
  "('v, 'r) fields_state \<Rightarrow> ('v, 'r) fields_action list \<Rightarrow> ('v, 'r) fields_state" where
  "dispatchAll state acts = foldl fieldsReducer state acts"


section \<open>Reading and setting values\<close>

definition getFieldValue :: "('v, 'r) fields_state \<Rightarrow> string \<Rightarrow> 'v option" where
  "getFieldValue flds key = (case map_of flds key of None \<Rightarrow> None | Some f \<Rightarrow> value f)"

definition getFieldsValue :: "('v, 'r) fields_state \<Rightarrow> (string \<times> 'v option) list" where
  "getFieldsValue flds = map (\<lambda>(k, item). (k, value item)) flds"

text \<open>
  The names of the members of \<open>Object.prototype\<close>, which every plain object inherits.
  Each of them reads as a function or an object, so it is truthy.
\<close>

definition objectPrototype :: "string list" where
  "objectPrototype =
     [''constructor'', ''hasOwnProperty'', ''isPrototypeOf'', ''propertyIsEnumerable'',
      ''toLocaleString'', ''toString'', ''valueOf'', ''__proto__'', ''__defineGetter__'',
      ''__defineSetter__'', ''__lookupGetter__'', ''__lookupSetter__'']"

text \<open>
  The test \<open>if (fields[name])\<close>: a record of the store is an object and so truthy;
  a name without a record reads as the inherited member, if there is one of that
  name, and as \<open>undefined\<close> otherwise.
\<close>

definition fieldTruthy :: "('v, 'r) fields_state \<Rightarrow> string \<Rightarrow> bool" where
  "fieldTruthy flds n = (map_of flds n \<noteq> None \<or> n \<in> set objectPrototype)"

definition setFieldValue ::
  "('v, 'r) fields_state \<Rightarrow> string \<Rightarrow> 'v option \<Rightarrow> ('v, 'r) fields_action list" where
  "setFieldValue flds n v = (if fieldTruthy flds n then [UpdateValue n v] else [])"

text \<open>The decimal numeral of an index, as \<open>String(index)\<close> gives it.\<close>

function string_of_nat :: "nat \<Rightarrow> string" where
  "string_of_nat n =
     (if n < 10 then [''0123456789'' ! n]
      else string_of_nat (n div 10) @ [''0123456789'' ! (n mod 10)])"
  by pat_completeness auto
termination
  by (relation "measure id") auto

declare string_of_nat.simps [simp del]

text \<open>
  The library's \<open>each(collection, iteratee)\<close> on an object. \<open>arrayLength\<close> is the
  library's test of a value as a length: \<open>Some len\<close> when the value is a number that is
  a non-negative integer (at most \<open>2^53 - 1\<close>), \<open>None\<close> for every other value. An
  object whose property \<open>length\<close> passes the test is visited like an array: the
  iteratee is called with \<open>collection[index]\<close> and \<open>index\<close> for the indices below
  \<open>len\<close>. Every other object is visited by its own entries. (The index is used by
  the caller as a property name, so it is given as its numeral.)
\<close>

definition ownProperty :: "(string \<times> 'v option) list \<Rightarrow> string \<Rightarrow> 'v option" where
  "ownProperty obj key = (case map_of obj key of None \<Rightarrow> None | Some v \<Rightarrow> v)"

definition each ::
  "('v option \<Rightarrow> nat option) \<Rightarrow> (string \<times> 'v option) list \<Rightarrow>
     ('v option \<Rightarrow> string \<Rightarrow> 'b list) \<Rightarrow> 'b list" where
  "each arrayLength collection iteratee =
     (case arrayLength (ownProperty collection ''length'') of
        Some len \<Rightarrow>
          concat (map (\<lambda>index. iteratee (ownProperty collection (string_of_nat index))
                                     (string_of_nat index)) [0..<len])
      | None \<Rightarrow> concat (map (\<lambda>(key, v). iteratee v key) collection))"

text \<open>
  \<open>resetFields\<close>: \<open>initialValues\<close> is optional; for every entry that \<open>each\<close> visits,
  an \<open>updateValue\<close> is dispatched if \<open>fields[name]\<close> is truthy.
\<close>

definition resetFields ::
  "('v option \<Rightarrow> nat option) \<Rightarrow> (string \<times> 'v option) list option \<Rightarrow>
     ('v, 'r) fields_state \<Rightarrow> ('v, 'r) fields_action list" where
  "resetFields arrayLength initialValues flds =
     (case initialValues of
        None \<Rightarrow> []
      | Some ivs \<Rightarrow>
          each arrayLength ivs
            (\<lambda>v n. if fieldTruthy flds n then [UpdateValue n v] else []))"

section \<open>Rule resolution\<close>

text \<open>
  \<open>transfromRules(rules)\<close> is \<open>rules.map(...)\<close>: it throws a TypeError when \<open>rules\<close> is
  \<open>undefined\<close>. A generator (\<open>typeof rule === 'function'\<close>) is called with the
  accessor \<open>getFieldValue\<close> of the store the hook was rendered with; when it throws,
  the \<open>map\<close> ends there and \<open>transfromRules\<close> throws the same error.
\<close>

fun mapRules :: "(string \<Rightarrow> 'v option) \<Rightarrow> ('v, 'r) custom_rule list \<Rightarrow> error + 'r list" where
  "mapRules accessor [] = Inr []"
| "mapRules accessor (rule # rest) =
     (case (case rule of Generator g \<Rightarrow> g accessor | Static r \<Rightarrow> Inr r) of
        Inl e \<Rightarrow> Inl e
      | Inr calledRule \<Rightarrow>
          (case mapRules accessor rest of
             Inl e \<Rightarrow> Inl e
           | Inr rs \<Rightarrow> Inr (calledRule # rs)))"

definition transfromRules ::
  "('v, 'r) fields_state \<Rightarrow> ('v, 'r) custom_rule list option \<Rightarrow> error + 'r list" where
  "transfromRules flds rs =
     (case rs of
        None \<Rightarrow> Inl TypeError
      | Some l \<Rightarrow> mapRules (getFieldValue flds) l)"

section \<open>The validation engine and the effects of the validators\<close>

text \<open>
  The outcome of \<open>await validator.validate(valueMap)\<close>: the promise resolves, or it
  rejects with an error object whose properties \<open>errors\<close> and \<open>fields\<close> are read by
  the callers (\<open>None\<close>: the thrown object has no such property).
\<close>

datatype engine_outcome =
    Resolved
  | Rejected "validate_error list option" "error_fields option"

type_synonym 'r descriptor = "(string \<times> 'r list) list"

type_synonym 'v value_map = "(string \<times> 'v option) list"

type_synonym ('v, 'r) engine = "'r descriptor \<Rightarrow> 'v value_map \<Rightarrow> engine_outcome"

datatype ('v, 'r) effect =
    SetForm form_state
  | Validate "'r descriptor" "'v value_map"
  | Dispatch "('v, 'r) fields_action"

record 'v validate_result =
  res_isValid :: bool
  res_errors :: "error_fields option"
  res_values :: "'v value_map"

section \<open>validateField\<close>

text \<open>
  Destructuring \<open>fields[name]\<close> throws when the name reads as \<open>undefined\<close>; for an
  inherited member it gives no rules, and \<open>transfromRules\<close> throws as it does for a
  record without rules or with a generator that throws. All of this happens before
  the \<open>try\<close>. Inside it every failure of the engine is caught, and \<open>finally\<close>
  dispatches.
\<close>

definition validateField ::
  "('v, 'r) engine \<Rightarrow> ('v, 'r) fields_state \<Rightarrow> string \<Rightarrow> error + ('v, 'r) effect list" where
  "validateField engine flds n =
     (case map_of flds n of
        None \<Rightarrow> Inl TypeError
      | Some item \<Rightarrow>
          (case transfromRules flds (rules item) of
             Inl e \<Rightarrow> Inl e
           | Inr afterRules \<Rightarrow>
               (let descriptor = [(n, afterRules)];
                    valueMap = [(n, value item)]
                in Inr [Validate descriptor valueMap,
                        (case engine descriptor valueMap of
                           Resolved \<Rightarrow> Dispatch (UpdateValidateResult n True (Some []))
                         | Rejected es fs \<Rightarrow> Dispatch (UpdateValidateResult n False es))])))"

section \<open>validateAllFields\<close>

text \<open>\<open>mapValues(fields, item => transfromRules(item.rules))\<close>, in the order of the keys.\<close>

fun buildDescriptor ::
  "('v, 'r) fields_state \<Rightarrow> ('v, 'r) fields_state \<Rightarrow> error + 'r descriptor" where
  "buildDescriptor flds [] = Inr []"
| "buildDescriptor flds ((k, item) # rest) =
     (case transfromRules flds (rules item) of
        Inl e \<Rightarrow> Inl e
      | Inr rs \<Rightarrow>
          (case buildDescriptor flds rest of
             Inl e \<Rightarrow> Inl e
           | Inr d \<Rightarrow> Inr ((k, rs) # d)))"

text \<open>
  The loop \<open>each(fields, (value, name) => ...)\<close> of the \<open>catch\<close> block, as the list of
  its dispatches. An error thrown by the callback (reading \<open>length\<close> of missing rules)
  ends the loop; \<open>return\<close> in the \<open>finally\<close> block then discards the error.
\<close>

fun redistribute :: "error_fields \<Rightarrow> ('v, 'r) fields_state \<Rightarrow> ('v, 'r) fields_action list" where
  "redistribute errs [] = []"
| "redistribute errs ((n, item) # rest) =
     (case map_of errs n of
        Some itemErrors \<Rightarrow>
          UpdateValidateResult n False (Some itemErrors) # redistribute errs rest
      | None \<Rightarrow>
          (case rules item of
             None \<Rightarrow> []
           | Some rs \<Rightarrow>
               (if length rs > 0
                then UpdateValidateResult n True (Some []) # redistribute errs rest
                else redistribute errs rest)))"

text \<open>
  The part of \<open>validateAllFields\<close> before the \<open>await\<close>: the value map, the descriptor
  (which may throw) and \<open>setForm({...form, isSubmitting: true})\<close>.
\<close>

definition validateAllFields_begin ::
  "('v, 'r) fields_state \<Rightarrow> form_state \<Rightarrow>
     error + ('r descriptor \<times> 'v value_map \<times> ('v, 'r) effect list)" where
  "validateAllFields_begin flds form =
     (let valueMap = getFieldsValue flds
      in case buildDescriptor flds flds of
           Inl e \<Rightarrow> Inl e
         | Inr descriptor \<Rightarrow>
             Inr (descriptor, valueMap, [SetForm (form\<lparr>isSubmitting := True\<rparr>)]))"

text \<open>
  The part after the \<open>await\<close>, given the outcome of the promise. When the error object
  has no \<open>fields\<close>, \<open>errors[name]\<close> throws in the first round of the loop (or the loop
  has no round): nothing is dispatched.
\<close>

definition validateAllFields_resume ::
  "('v, 'r) fields_state \<Rightarrow> form_state \<Rightarrow> 'v value_map \<Rightarrow> engine_outcome \<Rightarrow>
     ('v, 'r) effect list \<times> 'v validate_result" where
  "validateAllFields_resume flds form valueMap outcome =
     (case outcome of
        Resolved \<Rightarrow>
          ([SetForm (form\<lparr>isSubmitting := False, form_isValid := True, form_errors := Some []\<rparr>)],
           \<lparr>res_isValid = True, res_errors = Some [], res_values = valueMap\<rparr>)
      | Rejected es fs \<Rightarrow>
          (map Dispatch (case fs of None \<Rightarrow> [] | Some errs \<Rightarrow> redistribute errs flds)
             @ [SetForm (form\<lparr>isSubmitting := False, form_isValid := False, form_errors := fs\<rparr>)],
           \<lparr>res_isValid = False, res_errors = fs, res_values = valueMap\<rparr>))"

definition validateAllFields ::
  "('v, 'r) engine \<Rightarrow> ('v, 'r) fields_state \<Rightarrow> form_state \<Rightarrow>
     error + (('v, 'r) effect list \<times> 'v validate_result)" where
  "validateAllFields engine flds form =
     (case validateAllFields_begin flds form of
        Inl e \<Rightarrow> Inl e
      | Inr (descriptor, valueMap, before) \<Rightarrow>
          (let (after, res) =
                 validateAllFields_resume flds form valueMap (engine descriptor valueMap)
           in Inr (before @ Validate descriptor valueMap # after, res)))"

text \<open>The actions among the effects, and the store after them.\<close>

fun dispatched :: "('v, 'r) effect list \<Rightarrow> ('v, 'r) fields_action list" where
  "dispatched [] = []"
| "dispatched (Dispatch a # es) = a # dispatched es"
| "dispatched (e # es) = dispatched es"

fun formAfter :: "form_state \<Rightarrow> ('v, 'r) effect list \<Rightarrow> form_state" where
  "formAfter form [] = form"
| "formAfter form (SetForm f # es) = formAfter f es"
| "formAfter form (e # es) = formAfter form es"

text \<open>
  Rule resolution returns for every record of the store: every record has a rule list
  and every generator returns for the accessor of this store. This is when
  \<open>validateAllFields\<close> gets as far as the engine.
\<close>

definition rulesResolve :: "('v, 'r) fields_state \<Rightarrow> bool" where
  "rulesResolve flds = list_all (\<lambda>(k, item). \<not> isl (transfromRules flds (rules item))) flds"

section \<open>submitForm (the Form component)\<close>

datatype ('v, 'r) form_effect =
    PreventDefault
  | StopPropagation
  | Store "('v, 'r) effect"
  | OnFinish "'v value_map"
  | OnFinishFailed "'v value_map" "error_fields option"

text \<open>
  The callbacks are optional props: \<open>onFinish\<close> and \<open>onFinishFailed\<close> say whether each
  was supplied. The result is the list of effects and the error the handler's promise
  rejects with, if any.
\<close>

definition submitForm ::
  "('v, 'r) engine \<Rightarrow> ('v, 'r) fields_state \<Rightarrow> form_state \<Rightarrow> bool \<Rightarrow> bool \<Rightarrow>
     ('v, 'r) form_effect list \<times> error option" where
  "submitForm engine flds form onFinish onFinishFailed =
     (case validateAllFields engine flds form of
        Inl e \<Rightarrow> ([PreventDefault, StopPropagation], Some e)
      | Inr (effs, res) \<Rightarrow>
          ([PreventDefault, StopPropagation] @ map Store effs @
             (if res_isValid res \<and> onFinish then [OnFinish (res_values res)]
              else if \<not> res_isValid res \<and> onFinishFailed
                   then [OnFinishFailed (res_values res) (res_errors res)]
                   else []),
           None))"

section \<open>The store over time\<close>

text \<open>
  \<open>validateAllFields\<close> suspends at its \<open>await\<close>; other events may happen before the
  promise settles. A suspended call keeps the \<open>fields\<close> and \<open>form\<close> of the render it
  was started in, and its value map and descriptor.
\<close>

record ('v, 'r) pending_call =
  call_fields :: "('v, 'r) fields_state"
  call_form :: form_state
  call_descriptor :: "'r descriptor"
  call_values :: "'v value_map"

record ('v, 'r) store =
  store_fields :: "('v, 'r) fields_state"
  store_form :: form_state
  store_pending :: "('v, 'r) pending_call list"

text \<open>The state of \<open>useState\<close> and \<open>useReducer\<close> at the first render.\<close>

definition initialStore :: "('v, 'r) store" where
  "initialStore =
     \<lparr>store_fields = [],
      store_form = \<lparr>form_isValid = True, isSubmitting = False, form_errors = Some []\<rparr>,
      store_pending = []\<rparr>"

fun applyEffects :: "('v, 'r) store \<Rightarrow> ('v, 'r) effect list \<Rightarrow> ('v, 'r) store" where
  "applyEffects st [] = st"
| "applyEffects st (SetForm f # es) = applyEffects (st\<lparr>store_form := f\<rparr>) es"
| "applyEffects st (Dispatch a # es) =
     applyEffects (st\<lparr>store_fields := fieldsReducer (store_fields st) a\<rparr>) es"
| "applyEffects st (Validate d vm # es) = applyEffects st es"

datatype ('v, 'r) event =
    Act "('v, 'r) fields_action"
  | CallValidateAll
  | Settle nat

text \<open>
  \<open>Act a\<close>: an action is dispatched. \<open>CallValidateAll\<close>: \<open>validateAllFields\<close> runs up
  to its \<open>await\<close> (a call that throws there leaves no trace). \<open>Settle i\<close>: the promise
  of the \<open>i\<close>-th suspended call settles and the call runs to its end.
\<close>

fun step :: "('v, 'r) engine \<Rightarrow> ('v, 'r) store \<Rightarrow> ('v, 'r) event \<Rightarrow> ('v, 'r) store" where
  "step engine st (Act a) = st\<lparr>store_fields := fieldsReducer (store_fields st) a\<rparr>"
| "step engine st CallValidateAll =
     (case validateAllFields_begin (store_fields st) (store_form st) of
        Inl e \<Rightarrow> st
      | Inr (descriptor, valueMap, before) \<Rightarrow>
          (applyEffects st before)
            \<lparr>store_pending := store_pending st @
               [\<lparr>call_fields = store_fields st, call_form = store_form st,
                 call_descriptor = descriptor, call_values = valueMap\<rparr>]\<rparr>)"
| "step engine st (Settle i) =
     (if i < length (store_pending st)
      then (let c = store_pending st ! i;
                (after, res) =
                  validateAllFields_resume (call_fields c) (call_form c) (call_values c)
                    (engine (call_descriptor c) (call_values c))
            in (applyEffects st after)
                 \<lparr>store_pending := take i (store_pending st) @ drop (Suc i) (store_pending st)\<rparr>)
      else st)"

definition run :: "('v, 'r) engine \<Rightarrow> ('v, 'r) event list \<Rightarrow> ('v, 'r) store" where
  "run engine evs = foldl (step engine) initialStore evs"

section \<open>An example engine\<close>

text \<open>
  For the examples, rule descriptors of the form \<open>{validator: p}\<close> with a predicate \<open>p\<close>
  on the field's value, and an engine that follows the contract of the validation
  library: it resolves when every rule of every field accepts the field's value, and
  otherwise rejects with the flat list of errors and the per-field mapping, which has
  entries only for the fields that failed.
\<close>

definition fieldErrors :: "'v value_map \<Rightarrow> string \<times> ('v option \<Rightarrow> bool) list \<Rightarrow> validate_error list" where
  "fieldErrors valueMap = (\<lambda>(n, rs).
     map (\<lambda>p. \<lparr>message = n @ '' is invalid'', field = n\<rparr>)
       (filter (\<lambda>p. \<not> p (case map_of valueMap n of None \<Rightarrow> None | Some v \<Rightarrow> v)) rs))"

definition validatorEngine :: "('v, 'v option \<Rightarrow> bool) engine" where
  "validatorEngine descriptor valueMap =
     (let perField = filter (\<lambda>(n, es). es \<noteq> [])
                       (map (\<lambda>(n, rs). (n, fieldErrors valueMap (n, rs))) descriptor)
      in if perField = [] then Resolved
         else Rejected (Some (concat (map snd perField))) (Some perField))"

text \<open>The rule \<open>{required: true}\<close> as a predicate: the value is present and not empty.\<close>

definition required :: "string option \<Rightarrow> bool" where
  "required v = (v \<noteq> None \<and> v \<noteq> Some [])"

definition exampleField :: "(string, string option \<Rightarrow> bool) field_detail" where
  "exampleField =
     \<lparr>label = None, name = Some ''x'', value = Some '''', rules = Some [Static required],
      isValid = Some True, errors = Some []\<rparr>"

text \<open>The record that a form item registers for a required field with initial value \<open>v\<close>.\<close>

definition requiredField :: "string \<Rightarrow> string \<Rightarrow> (string, string option \<Rightarrow> bool) field_detail" where
  "requiredField n v =
     \<lparr>label = None, name = Some n, value = Some v, rules = Some [Static required],
      isValid = Some True, errors = Some []\<rparr>"

definition initialForm :: form_state where
  "initialForm = \<lparr>form_isValid = True, isSubmitting = False, form_errors = Some []\<rparr>"

text \<open>Field \<open>a\<close> is required and empty, field \<open>b\<close> is required and filled.\<close>

definition twoFields :: "(string, string option \<Rightarrow> bool) fields_state" where
  "twoFields = [(''a'', requiredField ''a'' ''''), (''b'', requiredField ''b'' ''filled'')]"


text \<open>
  A required field is registered empty, fails \<open>validateField\<close>, and is filled
  afterwards: the history of a user who leaves the field and comes back to it.
\<close>

definition staleFields :: "(string, string option \<Rightarrow> bool) fields_state" where
  "staleFields =
     (let registered = fieldsReducer [] (AddField ''email'' (requiredField ''email'' ''''));
          validated = (case validateField validatorEngine registered ''email'' of
                         Inl e \<Rightarrow> registered
                       | Inr effs \<Rightarrow> dispatchAll registered (dispatched effs))
      in fieldsReducer validated (UpdateValue ''email'' (Some ''a@b.c'')))"

text \<open>
  The rule generator \<open>({getFieldValue}) => ({validator: v => v === getFieldValue("password")})\<close>
  and a form with the fields \<open>password\<close> and \<open>confirm\<close>.
\<close>

definition matchesPassword :: "(string, string option \<Rightarrow> bool) custom_rule" where
  "matchesPassword = Generator (\<lambda>getFieldValue. Inr (\<lambda>v. v = getFieldValue ''password''))"

definition passwordForm :: "(string, string option \<Rightarrow> bool) fields_state" where
  "passwordForm =
     [(''password'',
       \<lparr>label = None, name = Some ''password'', value = Some ''abc123'', rules = Some [],
        isValid = Some True, errors = Some []\<rparr>),
      (''confirm'',
       \<lparr>label = None, name = Some ''confirm'', value = Some ''xyz'',
        rules = Some [matchesPassword], isValid = Some True, errors = Some []\<rparr>)]"

text \<open>
  The rule generator \<open>({getFieldValue}) => ({len: getFieldValue("password").length})\<close>:
  reading \<open>length\<close> of \<open>undefined\<close> throws a TypeError when no field \<open>password\<close> has a
  value. In \<open>confirmOnly\<close> the field \<open>confirm\<close> with this rule is registered and
  \<open>password\<close> is not.
\<close>

definition lengthOfPassword :: "(string, string option \<Rightarrow> bool) custom_rule" where
  "lengthOfPassword =
     Generator (\<lambda>getFieldValue.
       case getFieldValue ''password'' of
         None \<Rightarrow> Inl TypeError
       | Some p \<Rightarrow> Inr (\<lambda>v. map_option length v = Some (length p)))"

definition confirmOnly :: "(string, string option \<Rightarrow> bool) fields_state" where
  "confirmOnly =
     [(''confirm'',
       \<lparr>label = None, name = Some ''confirm'', value = Some ''xyz'',
        rules = Some [lengthOfPassword], isValid = Some True, errors = Some []\<rparr>)]"

text \<open>
  Values that are strings are never lengths; of integers, the non-negative ones up to
  \<open>2^53 - 1\<close> are.
\<close>

definition noLength :: "string option \<Rightarrow> nat option" where
  "noLength v = None"

definition intLength :: "int option \<Rightarrow> nat option" where
  "intLength v =
     (case v of
        None \<Rightarrow> None
      | Some k \<Rightarrow> if 0 \<le> k \<and> k \<le> 9007199254740991 then Some (nat k) else None)"

text \<open>A store with number values: a field named \<open>0\<close> and a field named \<open>x\<close>.\<close>

definition indexedFields :: "(int, unit) fields_state" where
  "indexedFields =
     [(''0'', \<lparr>label = None, name = Some ''0'', value = Some 5, rules = Some [],
               isValid = Some True, errors = Some []\<rparr>),
      (''x'', \<lparr>label = None, name = Some ''x'', value = Some 1, rules = Some [],
               isValid = Some True, errors = Some []\<rparr>)]"

section \<open>Properties of the reducer\<close>

lemma update_fresh: "map_of al k = None \<Longrightarrow> AList.update k v al = al @ [(k, v)]"
  by (induction al) (auto split: if_splits)

lemma map_of_Some_key: "map_of al k = Some v \<Longrightarrow> k \<in> fst ` set al"
  by (induction al) (auto split: if_splits)

text \<open>
  C2 (as the claim states it, refuted): \<open>updateValue\<close> and \<open>updateValidateResult\<close> for
  a name without a record are not no-ops of the reducer. On the empty store,
  \<open>updateValue("ghost", 1)\<close> returns a store that has a record for \<open>ghost\<close>.
\<close>

theorem updateValue_unknown_not_noop:
  "map_of ([] :: (int, unit) fields_state) ''ghost'' = None
   \<and> fieldsReducer ([] :: (int, unit) fields_state) (UpdateValue ''ghost'' (Some 1)) \<noteq> []
   \<and> map_of (fieldsReducer ([] :: (int, unit) fields_state) (UpdateValue ''ghost'' (Some 1)))
        ''ghost'' \<noteq> None
   \<and> fieldsReducer ([] :: (int, unit) fields_state)
        (UpdateValidateResult ''ghost'' True (Some [])) \<noteq> []"
  by simp

text \<open>
  C2 (amended): for a name \<open>n\<close> without a record in \<open>S\<close>, the reducer appends a new
  partial record for \<open>n\<close>: it has only the property \<open>value\<close> after \<open>updateValue\<close>, and
  only \<open>isValid\<close> and \<open>errors\<close> after \<open>updateValidateResult\<close>; every other name keeps
  its record.
\<close>

theorem unknown_field_adds_partial_record:
  assumes "map_of S n = None"
  shows "fieldsReducer S (UpdateValue n v) = S @ [(n, empty_object\<lparr>value := v\<rparr>)]
       \<and> fieldsReducer S (UpdateValidateResult n b es)
           = S @ [(n, empty_object\<lparr>isValid := Some b, errors := es\<rparr>)]
       \<and> (\<forall>m. m \<noteq> n \<longrightarrow>
             map_of (fieldsReducer S (UpdateValue n v)) m = map_of S m
           \<and> map_of (fieldsReducer S (UpdateValidateResult n b es)) m = map_of S m)"
  using assms by (simp add: update_fresh map_add_def split: option.splits)

theorem unknown_field_adds_partial_record_witness:
  "map_of [(''x'', exampleField)] ''ghost'' = None
   \<and> fieldsReducer [(''x'', exampleField)] (UpdateValue ''ghost'' (Some ''boo''))
       = [(''x'', exampleField), (''ghost'', empty_object\<lparr>value := Some ''boo''\<rparr>)]
   \<and> fieldsReducer [(''x'', exampleField)] (UpdateValidateResult ''ghost'' False None)
       = [(''x'', exampleField), (''ghost'', empty_object\<lparr>isValid := Some False, errors := None\<rparr>)]
   \<and> map_of (fieldsReducer [(''x'', exampleField)] (UpdateValue ''ghost'' (Some ''boo''))) ''x''
       = Some exampleField"
proof -
  have fresh: "map_of [(''x'', exampleField)] ''ghost'' = None"
    by simp
  from unknown_field_adds_partial_record
         [OF fresh, of "Some ''boo''" False None]
  show ?thesis by simp
qed

text \<open>
  The guard of \<open>setFieldValue\<close>: nothing is dispatched for a name that has no record
  and is not the name of an inherited member; for the name of an inherited member
  the action is dispatched although the name has no record.
\<close>

lemma setFieldValue_unknown:
  "map_of S n = None \<Longrightarrow> n \<notin> set objectPrototype \<Longrightarrow>
   setFieldValue S n v = [] \<and> dispatchAll S (setFieldValue S n v) = S"
  by (simp add: setFieldValue_def fieldTruthy_def dispatchAll_def)

lemma setFieldValue_inherited:
  "setFieldValue ([] :: (int, unit) fields_state) ''constructor'' (Some 1)
     = [UpdateValue ''constructor'' (Some 1)]"
  by (simp add: setFieldValue_def fieldTruthy_def objectPrototype_def)

text \<open>
  C8: for a name \<open>n\<close> with record \<open>f\<close> in \<open>S\<close>, \<open>updateValue(n, v)\<close> yields the store
  in which \<open>n\<close> maps to \<open>f\<close> with only \<open>value\<close> replaced, and every other name maps to
  what it mapped to; \<open>updateValidateResult(n, {isValid, errors})\<close> replaces only
  \<open>isValid\<close> and \<open>errors\<close> of \<open>n\<close>; neither adds, drops or reorders a name. On every
  store, the empty one included, \<open>addField(m, r)\<close> maps \<open>m\<close> to the properties of \<open>r\<close>
  and leaves every other name; the name \<open>m\<close> is appended if the store did not have it
  and keeps its place otherwise.
  (The reducer only builds new objects with spreads and assigns to nothing, so it is
  a function from the old snapshot to the new one; the old snapshot is its argument
  and stays what it was.)
\<close>

theorem reducer_frame:
  "(\<forall>f. map_of S n = Some f \<longrightarrow>
        map_of (fieldsReducer S (UpdateValue n v)) = (map_of S)(n \<mapsto> f\<lparr>value := v\<rparr>)
      \<and> map fst (fieldsReducer S (UpdateValue n v)) = map fst S
      \<and> map_of (fieldsReducer S (UpdateValidateResult n b es))
          = (map_of S)(n \<mapsto> f\<lparr>isValid := Some b, errors := es\<rparr>)
      \<and> map fst (fieldsReducer S (UpdateValidateResult n b es)) = map fst S)
   \<and> map_of (fieldsReducer S (AddField m r)) = (map_of S)(m \<mapsto> r)
   \<and> map fst (fieldsReducer S (AddField m r))
       = (if m \<in> set (map fst S) then map fst S else map fst S @ [m])"
proof (intro conjI allI impI)
  fix f assume f: "map_of S n = Some f"
  note key = map_of_Some_key [OF f]
  show "map_of (fieldsReducer S (UpdateValue n v)) = (map_of S)(n \<mapsto> f\<lparr>value := v\<rparr>)"
    using f by (simp add: update_conv')
  show "map fst (fieldsReducer S (UpdateValue n v)) = map fst S"
    using f key by (simp add: update_keys)
  show "map_of (fieldsReducer S (UpdateValidateResult n b es))
          = (map_of S)(n \<mapsto> f\<lparr>isValid := Some b, errors := es\<rparr>)"
    using f by (simp add: update_conv')
  show "map fst (fieldsReducer S (UpdateValidateResult n b es)) = map fst S"
    using f key by (simp add: update_keys)
next
  show "map_of (fieldsReducer S (AddField m r)) = (map_of S)(m \<mapsto> r)"
    by (simp add: update_conv')
  show "map fst (fieldsReducer S (AddField m r))
       = (if m \<in> set (map fst S) then map fst S else map fst S @ [m])"
    by (simp add: update_keys)
qed

theorem reducer_frame_witness:
  "map_of [(''x'', exampleField), (''y'', requiredField ''y'' ''kept'')] ''x'' = Some exampleField
   \<and> fieldsReducer [(''x'', exampleField), (''y'', requiredField ''y'' ''kept'')]
         (UpdateValue ''x'' (Some ''hello''))
       = [(''x'', exampleField\<lparr>value := Some ''hello''\<rparr>), (''y'', requiredField ''y'' ''kept'')]
   \<and> fieldsReducer [(''x'', exampleField), (''y'', requiredField ''y'' ''kept'')]
         (UpdateValidateResult ''x'' False None)
       = [(''x'', exampleField\<lparr>isValid := Some False, errors := None\<rparr>),
          (''y'', requiredField ''y'' ''kept'')]
   \<and> map_of (fieldsReducer ([] :: (string, string option \<Rightarrow> bool) fields_state)
                (AddField ''x'' exampleField)) ''x'' = Some exampleField
   \<and> map fst (fieldsReducer ([] :: (string, string option \<Rightarrow> bool) fields_state)
                (AddField ''x'' exampleField)) = [''x'']
   \<and> map_of (fieldsReducer [(''x'', exampleField), (''y'', requiredField ''y'' ''kept'')]
                (AddField ''x'' (requiredField ''x'' ''again''))) ''x''
       = Some (requiredField ''x'' ''again'')
   \<and> map_of (fieldsReducer [(''x'', exampleField), (''y'', requiredField ''y'' ''kept'')]
                (AddField ''x'' (requiredField ''x'' ''again''))) ''y''
       = Some (requiredField ''y'' ''kept'')"
proof -
  have reg: "map_of [(''x'', exampleField), (''y'', requiredField ''y'' ''kept'')] ''x''
               = Some exampleField"
    by simp
  note two = reducer_frame
    [of "[(''x'', exampleField), (''y'', requiredField ''y'' ''kept'')]" "''x''"
        "Some ''hello''" False None "''x''" "requiredField ''x'' ''again''"]
  note none = reducer_frame
    [of "[] :: (string, string option \<Rightarrow> bool) fields_state" "''x''"
        "Some ''hello''" False None "''x''" exampleField]
  from two reg
  have upd: "map_of (fieldsReducer [(''x'', exampleField), (''y'', requiredField ''y'' ''kept'')]
                       (AddField ''x'' (requiredField ''x'' ''again'')))
               = (map_of [(''x'', exampleField), (''y'', requiredField ''y'' ''kept'')])
                   (''x'' \<mapsto> requiredField ''x'' ''again'')"
    by blast
  from none
  have ins: "map_of (fieldsReducer ([] :: (string, string option \<Rightarrow> bool) fields_state)
                       (AddField ''x'' exampleField)) = (map_of [])(''x'' \<mapsto> exampleField)"
    and keys: "map fst (fieldsReducer ([] :: (string, string option \<Rightarrow> bool) fields_state)
                       (AddField ''x'' exampleField))
                 = (if ''x'' \<in> set (map fst ([] :: (string, string option \<Rightarrow> bool) fields_state))
                    then map fst ([] :: (string, string option \<Rightarrow> bool) fields_state)
                    else map fst ([] :: (string, string option \<Rightarrow> bool) fields_state) @ [''x''])"
    by blast+
  show ?thesis
    using reg upd ins keys two by simp
qed

section \<open>Properties of resetFields\<close>

lemma string_of_nat_digit: "n < 10 \<Longrightarrow> string_of_nat n = [''0123456789'' ! n]"
  by (simp add: string_of_nat.simps)

lemma guarded_dispatches:
  "\<forall>(n, v) \<in> set ps. P n = Q n \<Longrightarrow>
   concat (map (\<lambda>(n, v). if P n then [UpdateValue n v] else []) ps)
     = map (\<lambda>(n, v). UpdateValue n v) (filter (\<lambda>(n, v). Q n) ps)"
  by (induction ps) auto

text \<open>
  When \<open>initialValues\<close> is not visited like an array and none of its names is an
  inherited member's name without a record in the store, \<open>resetFields\<close> dispatches
  exactly for its entries whose name has a record.
\<close>

lemma resetFields_Some:
  assumes "arrayLength (ownProperty ivs ''length'') = None"
      and "\<forall>(n, v) \<in> set ivs. n \<in> set objectPrototype \<longrightarrow> map_of flds n \<noteq> None"
  shows "resetFields arrayLength (Some ivs) flds
     = map (\<lambda>(n, v). UpdateValue n v) (filter (\<lambda>(n, v). map_of flds n \<noteq> None) ivs)"
proof -
  from assms(2) have "\<forall>(n, v) \<in> set ivs. fieldTruthy flds n = (map_of flds n \<noteq> None)"
    by (auto simp: fieldTruthy_def)
  from guarded_dispatches [of ivs "fieldTruthy flds" "\<lambda>n. map_of flds n \<noteq> None", OF this]
  show ?thesis
    using assms(1) by (simp add: resetFields_def each_def)
qed

lemma updateValue_fold_keys:
  "\<forall>(n, v) \<in> set ps. map_of S n \<noteq> None \<Longrightarrow>
   map fst (foldl fieldsReducer S (map (\<lambda>(n, v). UpdateValue n v) ps)) = map fst S"
proof (induction ps arbitrary: S)
  case Nil
  show ?case by simp
next
  case (Cons p ps)
  obtain n v where p: "p = (n, v)" by (cases p)
  from Cons.prems p obtain f where f: "map_of S n = Some f" by auto
  let ?S1 = "fieldsReducer S (UpdateValue n v)"
  have keys: "map fst ?S1 = map fst S"
    using map_of_Some_key [OF f] by (simp add: update_keys)
  have "\<forall>(m, w) \<in> set ps. map_of ?S1 m \<noteq> None"
    using Cons.prems by (auto simp: update_conv')
  from Cons.IH [OF this] keys p show ?case by simp
qed

lemma updateValue_fold_lookup:
  "distinct (map fst ps) \<Longrightarrow> \<forall>(n, v) \<in> set ps. map_of S n \<noteq> None \<Longrightarrow>
   map_of (foldl fieldsReducer S (map (\<lambda>(n, v). UpdateValue n v) ps)) m
     = (case map_of S m of
          None \<Rightarrow> None
        | Some f \<Rightarrow> Some (case map_of ps m of None \<Rightarrow> f | Some v \<Rightarrow> f\<lparr>value := v\<rparr>))"
proof (induction ps arbitrary: S)
  case Nil
  show ?case by (simp split: option.splits)
next
  case (Cons p ps)
  obtain n v where p: "p = (n, v)" by (cases p)
  from Cons.prems p obtain f where f: "map_of S n = Some f" by auto
  define S1 where "S1 = fieldsReducer S (UpdateValue n v)"
  have S1: "map_of S1 = (map_of S)(n \<mapsto> f\<lparr>value := v\<rparr>)"
    using f by (simp add: S1_def update_conv')
  have d: "distinct (map fst ps)" and fresh: "map_of ps n = None"
    using Cons.prems(1) p by (auto simp: map_of_eq_None_iff)
  have reg: "\<forall>(m, w) \<in> set ps. map_of S1 m \<noteq> None"
    using Cons.prems(2) by (auto simp: S1)
  have step: "foldl fieldsReducer S (map (\<lambda>(n, v). UpdateValue n v) ((n, v) # ps))
                = foldl fieldsReducer S1 (map (\<lambda>(n, v). UpdateValue n v) ps)"
    by (simp add: S1_def)
  have IH: "map_of (foldl fieldsReducer S1 (map (\<lambda>(n, v). UpdateValue n v) ps)) m
     = (case map_of S1 m of
          None \<Rightarrow> None
        | Some f \<Rightarrow> Some (case map_of ps m of None \<Rightarrow> f | Some v \<Rightarrow> f\<lparr>value := v\<rparr>))"
    by (rule Cons.IH [OF d reg])
  show ?case
  proof (cases "m = n")
    case True
    then show ?thesis unfolding step IH p by (simp add: S1 f fresh)
  next
    case False
    then show ?thesis unfolding step IH p by (cases "map_of S m") (simp_all add: S1)
  qed
qed

lemma filter_registered_lookup:
  "map_of (filter (\<lambda>(n, v). map_of flds n \<noteq> None) ivs) m
     = (if map_of flds m \<noteq> None then map_of ivs m else None)"
  by (induction ivs) auto

text \<open>
  For such \<open>initialValues\<close> the store after \<open>resetFields\<close> has the same names; a name
  that is also in \<open>initialValues\<close> has its record with only \<open>value\<close> replaced, every
  other name has its record unchanged, and no record is created. Without
  \<open>initialValues\<close> nothing is dispatched.
\<close>

lemma resetFields_frame:
  assumes "distinct (map fst ivs)"
      and len: "arrayLength (ownProperty ivs ''length'') = None"
      and inh: "\<forall>(n, v) \<in> set ivs. n \<in> set objectPrototype \<longrightarrow> map_of flds n \<noteq> None"
  shows "resetFields arrayLength (Some ivs) flds
           = map (\<lambda>(n, v). UpdateValue n v) (filter (\<lambda>(n, v). map_of flds n \<noteq> None) ivs)
       \<and> map fst (dispatchAll flds (resetFields arrayLength (Some ivs) flds)) = map fst flds
       \<and> (\<forall>m. map_of (dispatchAll flds (resetFields arrayLength (Some ivs) flds)) m
                = (case map_of flds m of
                     None \<Rightarrow> None
                   | Some f \<Rightarrow> Some (case map_of ivs m of None \<Rightarrow> f | Some v \<Rightarrow> f\<lparr>value := v\<rparr>)))
       \<and> resetFields arrayLength None flds = []
       \<and> dispatchAll flds (resetFields arrayLength None flds) = flds"
proof -
  note rs = resetFields_Some
    [where arrayLength = arrayLength and ivs = ivs and flds = flds, OF len inh]
  let ?ps = "filter (\<lambda>(n, v). map_of flds n \<noteq> None) ivs"
  have d: "distinct (map fst ?ps)"
    using assms(1) by (simp add: distinct_map_filter)
  have reg: "\<forall>(n, v) \<in> set ?ps. map_of flds n \<noteq> None"
    by auto
  have look: "map_of (dispatchAll flds (resetFields arrayLength (Some ivs) flds)) m
                = (case map_of flds m of
                     None \<Rightarrow> None
                   | Some f \<Rightarrow> Some (case map_of ivs m of None \<Rightarrow> f | Some v \<Rightarrow> f\<lparr>value := v\<rparr>))" for m
    unfolding dispatchAll_def rs updateValue_fold_lookup [OF d reg]
    by (cases "map_of flds m") (simp_all add: filter_registered_lookup del: not_None_eq)
  have keys: "map fst (dispatchAll flds (resetFields arrayLength (Some ivs) flds)) = map fst flds"
    unfolding dispatchAll_def rs by (rule updateValue_fold_keys [OF reg])
  show ?thesis
    using look keys by (simp add: rs) (simp add: resetFields_def dispatchAll_def)
qed


text \<open>
  C10 (the code at failing inputs). With \<open>initialValues = {toString: "boo"}\<close> and a
  store that has no field \<open>toString\<close>, \<open>fields["toString"]\<close> is the inherited
  function, which is truthy: \<open>resetFields\<close> dispatches \<open>updateValue("toString", "boo")\<close>
  and the store gets a record for a name that was never registered. With
  \<open>initialValues = {length: 1, x: 7}\<close>, which \<open>each\<close> visits like an array, and a store
  with the fields \<open>0\<close> and \<open>x\<close>: the field \<open>0\<close>, which is not in \<open>initialValues\<close>, is
  set to \<open>undefined\<close>, and \<open>x\<close> is not reset.
\<close>

theorem resetFields_dispatches_outside_initialValues:
  "map_of [(''x'', exampleField)] ''toString'' = None
   \<and> resetFields noLength (Some [(''toString'', Some ''boo'')]) [(''x'', exampleField)]
       = [UpdateValue ''toString'' (Some ''boo'')]
   \<and> dispatchAll [(''x'', exampleField)]
         (resetFields noLength (Some [(''toString'', Some ''boo'')]) [(''x'', exampleField)])
       = [(''x'', exampleField), (''toString'', empty_object\<lparr>value := Some ''boo''\<rparr>)]
   \<and> map_of [(''length'', Some (1::int)), (''x'', Some 7)] ''0'' = None
   \<and> resetFields intLength (Some [(''length'', Some 1), (''x'', Some 7)]) indexedFields
       = [UpdateValue ''0'' None]
   \<and> map_of (dispatchAll indexedFields
                (resetFields intLength (Some [(''length'', Some 1), (''x'', Some 7)])
                   indexedFields)) ''0''
       = Some \<lparr>label = None, name = Some ''0'', value = None, rules = Some [],
               isValid = Some True, errors = Some []\<rparr>
   \<and> map_of (dispatchAll indexedFields
                (resetFields intLength (Some [(''length'', Some 1), (''x'', Some 7)])
                   indexedFields)) ''x''
       = Some \<lparr>label = None, name = Some ''x'', value = Some 1, rules = Some [],
               isValid = Some True, errors = Some []\<rparr>"
  by (simp add: resetFields_def each_def ownProperty_def noLength_def intLength_def
        fieldTruthy_def objectPrototype_def dispatchAll_def indexedFields_def
        string_of_nat_digit update_fresh)

section \<open>Properties of rule resolution and validateField\<close>

lemma mapRules_pointwise:
  "mapRules accessor rs = Inr out \<Longrightarrow>
   length out = length rs
   \<and> (\<forall>i < length rs.
         (\<forall>r. rs ! i = Static r \<longrightarrow> out ! i = r)
       \<and> (\<forall>g. rs ! i = Generator g \<longrightarrow> g accessor = Inr (out ! i)))"
proof (induction rs arbitrary: out)
  case Nil
  then show ?case by simp
next
  case (Cons rule rs)
  from Cons.prems obtain r out' where
    r: "(case rule of Generator g \<Rightarrow> g accessor | Static r \<Rightarrow> Inr r) = Inr r" and
    out': "mapRules accessor rs = Inr out'" and
    out: "out = r # out'"
    by (auto split: sum.splits)
  from Cons.IH [OF out'] r show ?case
    by (cases rule) (auto simp: out nth_Cons')
qed

lemma mapRules_returns:
  "\<forall>i < length rs. \<forall>g. rs ! i = Generator g \<longrightarrow> (\<exists>r. g accessor = Inr r) \<Longrightarrow>
   \<exists>out. mapRules accessor rs = Inr out"
proof (induction rs)
  case Nil
  show ?case by simp
next
  case (Cons rule rs)
  from Cons.prems have hd: "\<forall>g. rule = Generator g \<longrightarrow> (\<exists>r. g accessor = Inr r)"
    by fastforce
  from Cons.prems
  have "\<forall>i < length rs. \<forall>g. rs ! i = Generator g \<longrightarrow> (\<exists>r. g accessor = Inr r)"
    by fastforce
  from Cons.IH [OF this] obtain out where out: "mapRules accessor rs = Inr out"
    by blast
  from hd out show ?case
    by (cases rule) auto
qed

lemma mapRules_throws:
  assumes "i < length rs" and "rs ! i = Generator g" and "g accessor = Inl e"
  shows "\<exists>e'. mapRules accessor rs = Inl e'"
proof (cases "mapRules accessor rs")
  case (Inl e')
  then show ?thesis by blast
next
  case (Inr out)
  from mapRules_pointwise [OF Inr] assms(1,2) have "g accessor = Inr (out ! i)"
    by blast
  with assms(3) show ?thesis by simp
qed

lemma buildDescriptor_pointwise:
  "buildDescriptor flds rest = Inr d \<Longrightarrow>
   map fst d = map fst rest
   \<and> (\<forall>i < length rest. transfromRules flds (rules (snd (rest ! i))) = Inr (snd (d ! i)))"
proof (induction rest arbitrary: d)
  case Nil
  then show ?case by simp
next
  case (Cons p rest)
  obtain k item where p: "p = (k, item)" by (cases p)
  from Cons.prems p obtain rs d' where
    rs: "transfromRules flds (rules item) = Inr rs" and
    d': "buildDescriptor flds rest = Inr d'" and
    d: "d = (k, rs) # d'"
    by (auto split: sum.splits)
  from Cons.IH [OF d'] rs show ?case
    by (auto simp: p d nth_Cons')
qed

text \<open>
  C6: whenever the generators of the rule list return, \<open>transfromRules\<close> returns a
  list of the same length as the rule list; at every index a static rule is passed
  through and a generator is replaced by what it returns for the accessor of the
  store the validation is called with (and a result of \<open>transfromRules\<close> is always of
  this form). Every call of
  \<open>validateField\<close> sends the engine the rules resolved against that store, and the
  descriptor of \<open>validateAllFields\<close> holds for every field its rules resolved against
  that store (the functions have no other input that could hold an earlier
  resolution). On the form
  with \<open>password = "abc123"\<close> and \<open>confirm = "xyz"\<close>, where \<open>confirm\<close> has the rule
  generator that compares with \<open>getFieldValue("password")\<close>, \<open>validateField("confirm")\<close>
  dispatches a failure; after \<open>updateValue("confirm", "abc123")\<close>, and also after
  \<open>updateValue("password", "xyz")\<close>, it dispatches a success.
\<close>

theorem transfromRules_late_binding:
  "((\<forall>i < length rs. \<forall>g. rs ! i = Generator g \<longrightarrow> (\<exists>r. g (getFieldValue flds) = Inr r)) \<longrightarrow>
      (\<exists>out. transfromRules flds (Some rs) = Inr out \<and> length out = length rs
         \<and> (\<forall>i < length rs.
               (\<forall>r. rs ! i = Static r \<longrightarrow> out ! i = r)
             \<and> (\<forall>g. rs ! i = Generator g \<longrightarrow> g (getFieldValue flds) = Inr (out ! i)))))
   \<and> (\<forall>out. transfromRules flds (Some rs) = Inr out \<longrightarrow>
         length out = length rs
         \<and> (\<forall>i < length rs.
               (\<forall>r. rs ! i = Static r \<longrightarrow> out ! i = r)
             \<and> (\<forall>g. rs ! i = Generator g \<longrightarrow> g (getFieldValue flds) = Inr (out ! i))))
   \<and> (\<forall>item out. map_of flds n = Some item \<longrightarrow> transfromRules flds (rules item) = Inr out \<longrightarrow>
         (\<exists>d. validateField engine flds n = Inr [Validate [(n, out)] [(n, value item)], d]))
   \<and> (\<forall>d. buildDescriptor flds flds = Inr d \<longrightarrow>
         map fst d = map fst flds
         \<and> (\<forall>i < length flds. transfromRules flds (rules (snd (flds ! i))) = Inr (snd (d ! i))))
   \<and> (\<exists>d. validateField validatorEngine passwordForm ''confirm''
                 = Inr [d, Dispatch (UpdateValidateResult ''confirm'' False
                            (Some [\<lparr>message = ''confirm is invalid'', field = ''confirm''\<rparr>]))])
   \<and> (\<exists>d. validateField validatorEngine
                 (fieldsReducer passwordForm (UpdateValue ''confirm'' (Some ''abc123''))) ''confirm''
                 = Inr [d, Dispatch (UpdateValidateResult ''confirm'' True (Some []))])
   \<and> (\<exists>d. validateField validatorEngine
                 (fieldsReducer passwordForm (UpdateValue ''password'' (Some ''xyz''))) ''confirm''
                 = Inr [d, Dispatch (UpdateValidateResult ''confirm'' True (Some []))])"
proof -
  have form: "\<forall>out. transfromRules flds (Some rs) = Inr out \<longrightarrow>
         length out = length rs
         \<and> (\<forall>i < length rs.
               (\<forall>r. rs ! i = Static r \<longrightarrow> out ! i = r)
             \<and> (\<forall>g. rs ! i = Generator g \<longrightarrow> g (getFieldValue flds) = Inr (out ! i)))"
    using mapRules_pointwise [of "getFieldValue flds" rs] by (simp add: transfromRules_def)
  have pointwise:
    "(\<forall>i < length rs. \<forall>g. rs ! i = Generator g \<longrightarrow> (\<exists>r. g (getFieldValue flds) = Inr r)) \<longrightarrow>
      (\<exists>out. transfromRules flds (Some rs) = Inr out \<and> length out = length rs
         \<and> (\<forall>i < length rs.
               (\<forall>r. rs ! i = Static r \<longrightarrow> out ! i = r)
             \<and> (\<forall>g. rs ! i = Generator g \<longrightarrow> g (getFieldValue flds) = Inr (out ! i))))"
  proof
    assume "\<forall>i < length rs. \<forall>g. rs ! i = Generator g \<longrightarrow> (\<exists>r. g (getFieldValue flds) = Inr r)"
    from mapRules_returns [OF this] obtain out where
      "transfromRules flds (Some rs) = Inr out"
      by (auto simp: transfromRules_def)
    with form show "\<exists>out. transfromRules flds (Some rs) = Inr out \<and> length out = length rs
         \<and> (\<forall>i < length rs.
               (\<forall>r. rs ! i = Static r \<longrightarrow> out ! i = r)
             \<and> (\<forall>g. rs ! i = Generator g \<longrightarrow> g (getFieldValue flds) = Inr (out ! i)))"
      by blast
  qed
  have request: "\<forall>item out. map_of flds n = Some item \<longrightarrow> transfromRules flds (rules item) = Inr out \<longrightarrow>
         (\<exists>d. validateField engine flds n = Inr [Validate [(n, out)] [(n, value item)], d])"
    by (simp add: validateField_def Let_def)
  have aggregate: "\<forall>d. buildDescriptor flds flds = Inr d \<longrightarrow>
         map fst d = map fst flds
         \<and> (\<forall>i < length flds. transfromRules flds (rules (snd (flds ! i))) = Inr (snd (d ! i)))"
    using buildDescriptor_pointwise by blast
  have fails: "\<exists>d. validateField validatorEngine passwordForm ''confirm''
                 = Inr [d, Dispatch (UpdateValidateResult ''confirm'' False
                            (Some [\<lparr>message = ''confirm is invalid'', field = ''confirm''\<rparr>]))]"
    by (simp add: validateField_def passwordForm_def matchesPassword_def transfromRules_def
          getFieldValue_def validatorEngine_def fieldErrors_def Let_def)
  have passes1: "\<exists>d. validateField validatorEngine
                 (fieldsReducer passwordForm (UpdateValue ''confirm'' (Some ''abc123''))) ''confirm''
                 = Inr [d, Dispatch (UpdateValidateResult ''confirm'' True (Some []))]"
    by (simp add: validateField_def passwordForm_def matchesPassword_def transfromRules_def
          getFieldValue_def validatorEngine_def fieldErrors_def Let_def)
  have passes2: "\<exists>d. validateField validatorEngine
                 (fieldsReducer passwordForm (UpdateValue ''password'' (Some ''xyz''))) ''confirm''
                 = Inr [d, Dispatch (UpdateValidateResult ''confirm'' True (Some []))]"
    by (simp add: validateField_def passwordForm_def matchesPassword_def transfromRules_def
          getFieldValue_def validatorEngine_def fieldErrors_def Let_def)
  from pointwise form request aggregate fails passes1 passes2 show ?thesis by blast
qed

theorem transfromRules_late_binding_witness:
  "(1::nat) < length [matchesPassword, Static required]
   \<and> [matchesPassword, Static required] ! 1 = Static required
   \<and> [matchesPassword, Static required] ! 0
       = Generator (\<lambda>getFieldValue. Inr (\<lambda>v. v = getFieldValue ''password''))
   \<and> (\<exists>out. transfromRules passwordForm (Some [matchesPassword, Static required]) = Inr out
          \<and> length out = 2 \<and> out ! 1 = required
          \<and> out ! 0 = (\<lambda>v. v = getFieldValue passwordForm ''password''))
   \<and> map_of passwordForm ''confirm'' = Some (snd (passwordForm ! 1))
   \<and> transfromRules passwordForm (rules (snd (passwordForm ! 1)))
       = Inr [\<lambda>v. v = getFieldValue passwordForm ''password'']
   \<and> (\<exists>d. validateField validatorEngine passwordForm ''confirm''
              = Inr [Validate [(''confirm'', [\<lambda>v. v = getFieldValue passwordForm ''password''])]
                       [(''confirm'', Some ''xyz'')], d])
   \<and> buildDescriptor passwordForm passwordForm
       = Inr [(''password'', []),
              (''confirm'', [\<lambda>v. v = getFieldValue passwordForm ''password''])]"
proof -
  have agg: "buildDescriptor passwordForm passwordForm
       = Inr [(''password'', []),
              (''confirm'', [\<lambda>v. v = getFieldValue passwordForm ''password''])]"
    by (simp add: passwordForm_def transfromRules_def matchesPassword_def)
  have gens: "\<forall>i < length [matchesPassword, Static required]. \<forall>g.
       [matchesPassword, Static required] ! i = Generator g
         \<longrightarrow> (\<exists>r. g (getFieldValue passwordForm) = Inr r)"
    by (auto simp: matchesPassword_def nth_Cons' less_Suc_eq)
  have len: "(1::nat) < length [matchesPassword, Static required]"
    and i1: "[matchesPassword, Static required] ! 1 = Static required"
    and i0: "[matchesPassword, Static required] ! 0
               = Generator (\<lambda>getFieldValue. Inr (\<lambda>v. v = getFieldValue ''password''))"
    by (simp_all add: matchesPassword_def)
  have reg: "map_of passwordForm ''confirm'' = Some (snd (passwordForm ! 1))"
    by (simp add: passwordForm_def)
  have res: "transfromRules passwordForm (rules (snd (passwordForm ! 1)))
               = Inr [\<lambda>v. v = getFieldValue passwordForm ''password'']"
    by (simp add: passwordForm_def transfromRules_def matchesPassword_def)
  have val: "value (snd (passwordForm ! 1)) = Some ''xyz''"
    by (simp add: passwordForm_def)
  note inst = transfromRules_late_binding
         [of "[matchesPassword, Static required]" passwordForm "''confirm''" validatorEngine]
  from inst gens obtain out where out:
    "transfromRules passwordForm (Some [matchesPassword, Static required]) = Inr out"
    "length out = length [matchesPassword, Static required]"
    "\<forall>i < length [matchesPassword, Static required].
        (\<forall>r. [matchesPassword, Static required] ! i = Static r \<longrightarrow> out ! i = r)
      \<and> (\<forall>g. [matchesPassword, Static required] ! i = Generator g
               \<longrightarrow> g (getFieldValue passwordForm) = Inr (out ! i))"
    by blast
  from inst have req: "\<forall>item out. map_of passwordForm ''confirm'' = Some item \<longrightarrow>
                transfromRules passwordForm (rules item) = Inr out \<longrightarrow>
                (\<exists>d. validateField validatorEngine passwordForm ''confirm''
                        = Inr [Validate [(''confirm'', out)] [(''confirm'', value item)], d])"
    by blast
  from out(3) len i1 have o1: "out ! 1 = required" by blast
  from out(3) have "[matchesPassword, Static required] ! 0 = Generator G
           \<longrightarrow> G (getFieldValue passwordForm) = Inr (out ! 0)" for G
    by auto
  from this [of "\<lambda>getFieldValue. Inr (\<lambda>v. v = getFieldValue ''password'')"] i0
  have o0: "out ! 0 = (\<lambda>v. v = getFieldValue passwordForm ''password'')"
    by simp
  from req reg res val
  have "\<exists>d. validateField validatorEngine passwordForm ''confirm''
              = Inr [Validate [(''confirm'', [\<lambda>v. v = getFieldValue passwordForm ''password''])]
                       [(''confirm'', Some ''xyz'')], d]"
    by fastforce
  with len i1 i0 out(1,2) o1 o0 reg res agg show ?thesis by auto
qed

text \<open>
  C4 (as the claim states it, refuted): the field \<open>confirm\<close> of \<open>confirmOnly\<close> has a
  record in the store, and its rule generator throws for this store; the rules are
  resolved before the \<open>try\<close>, so \<open>validateField("confirm")\<close> raises the error to its
  caller and dispatches nothing.
\<close>

theorem validateField_raises_when_generator_throws:
  "map_of confirmOnly ''confirm'' \<noteq> None
   \<and> validateField validatorEngine confirmOnly ''confirm'' = Inl TypeError"
  by (simp add: confirmOnly_def validateField_def transfromRules_def lengthOfPassword_def
        getFieldValue_def)

text \<open>
  C4 (amended): for a name that has a record in the store, \<open>validateField\<close> raises
  exactly when resolving the rules of the record throws (a rule generator throws, or
  the record has no rule list), with the error of the resolution and without a
  dispatch. Whenever the rules are resolved, it returns without raising: it calls the
  engine once, with the descriptor and the value map of this field alone, and
  dispatches exactly one result: valid with no errors when the engine resolves, and
  invalid with the error list of the engine's error when it rejects, for every error
  the engine rejects with.
\<close>

theorem validateField_catches_engine_failures:
  assumes "map_of flds n = Some item"
  shows "(\<forall>e. transfromRules flds (rules item) = Inl e \<longrightarrow> validateField engine flds n = Inl e)
       \<and> (\<forall>out. transfromRules flds (rules item) = Inr out \<longrightarrow>
             (\<exists>a. validateField engine flds n
                     = Inr [Validate [(n, out)] [(n, value item)], Dispatch a]
                 \<and> dispatched [Validate [(n, out)] [(n, value item)], Dispatch a] = [a]
                 \<and> (engine [(n, out)] [(n, value item)] = Resolved
                       \<longrightarrow> a = UpdateValidateResult n True (Some []))
                 \<and> (\<forall>es fs. engine [(n, out)] [(n, value item)] = Rejected es fs
                       \<longrightarrow> a = UpdateValidateResult n False es)))"
proof (intro conjI allI impI)
  fix e assume "transfromRules flds (rules item) = Inl e"
  with assms show "validateField engine flds n = Inl e"
    by (simp add: validateField_def)
next
  fix out assume out: "transfromRules flds (rules item) = Inr out"
  show "\<exists>a. validateField engine flds n
                     = Inr [Validate [(n, out)] [(n, value item)], Dispatch a]
                 \<and> dispatched [Validate [(n, out)] [(n, value item)], Dispatch a] = [a]
                 \<and> (engine [(n, out)] [(n, value item)] = Resolved
                       \<longrightarrow> a = UpdateValidateResult n True (Some []))
                 \<and> (\<forall>es fs. engine [(n, out)] [(n, value item)] = Rejected es fs
                       \<longrightarrow> a = UpdateValidateResult n False es)"
    using assms out
    by (cases "engine [(n, out)] [(n, value item)]") (simp_all add: validateField_def Let_def)
qed

theorem validateField_catches_engine_failures_witness:
  "map_of twoFields ''a'' = Some (requiredField ''a'' '''')
   \<and> transfromRules twoFields (rules (requiredField ''a'' '''')) = Inr [required]
   \<and> validatorEngine [(''a'', [required])] [(''a'', Some '''')]
       = Rejected (Some [\<lparr>message = ''a is invalid'', field = ''a''\<rparr>])
           (Some [(''a'', [\<lparr>message = ''a is invalid'', field = ''a''\<rparr>])])
   \<and> validateField validatorEngine twoFields ''a''
       = Inr [Validate [(''a'', [required])] [(''a'', Some '''')],
              Dispatch (UpdateValidateResult ''a'' False
                          (Some [\<lparr>message = ''a is invalid'', field = ''a''\<rparr>]))]
   \<and> map_of confirmOnly ''confirm'' = Some (snd (confirmOnly ! 0))
   \<and> transfromRules confirmOnly (rules (snd (confirmOnly ! 0))) = Inl TypeError
   \<and> validateField validatorEngine confirmOnly ''confirm'' = Inl TypeError"
proof -
  have reg: "map_of twoFields ''a'' = Some (requiredField ''a'' '''')"
    by (simp add: twoFields_def)
  have out: "transfromRules twoFields (rules (requiredField ''a'' '''')) = Inr [required]"
    by (simp add: transfromRules_def requiredField_def)
  have val: "value (requiredField ''a'' '''') = Some ''''"
    by (simp add: requiredField_def)
  have rej: "validatorEngine [(''a'', [required])] [(''a'', Some '''')]
       = Rejected (Some [\<lparr>message = ''a is invalid'', field = ''a''\<rparr>])
           (Some [(''a'', [\<lparr>message = ''a is invalid'', field = ''a''\<rparr>])])"
    by (simp add: validatorEngine_def fieldErrors_def required_def)
  from validateField_catches_engine_failures [OF reg, of validatorEngine] out val rej
  have returns: "validateField validatorEngine twoFields ''a''
       = Inr [Validate [(''a'', [required])] [(''a'', Some '''')],
              Dispatch (UpdateValidateResult ''a'' False
                          (Some [\<lparr>message = ''a is invalid'', field = ''a''\<rparr>]))]"
    by auto
  have reg': "map_of confirmOnly ''confirm'' = Some (snd (confirmOnly ! 0))"
    by (simp add: confirmOnly_def)
  have thr: "transfromRules confirmOnly (rules (snd (confirmOnly ! 0))) = Inl TypeError"
    by (simp add: confirmOnly_def transfromRules_def lengthOfPassword_def getFieldValue_def)
  from validateField_catches_engine_failures [OF reg', of validatorEngine] thr
  have raises: "validateField validatorEngine confirmOnly ''confirm'' = Inl TypeError"
    by blast
  from reg out rej returns reg' thr raises show ?thesis by simp
qed

section \<open>Properties of validateAllFields\<close>


lemma buildDescriptor_total:
  "list_all (\<lambda>(k, item). \<not> isl (transfromRules flds (rules item))) rest \<Longrightarrow>
   \<exists>d. buildDescriptor flds rest = Inr d"
  by (induction rest) (auto split: sum.splits)

lemma buildDescriptor_Inr_resolve:
  "buildDescriptor flds rest = Inr d \<Longrightarrow>
   list_all (\<lambda>(k, item). \<not> isl (transfromRules flds (rules item))) rest"
  by (induction rest arbitrary: d) (auto split: sum.splits)

lemma rulesResolve_iff: "rulesResolve flds \<longleftrightarrow> (\<exists>d. buildDescriptor flds flds = Inr d)"
  unfolding rulesResolve_def using buildDescriptor_Inr_resolve buildDescriptor_total by blast




lemma dispatched_map_Dispatch: "dispatched (map Dispatch acts @ [SetForm f]) = acts"
  by (induction acts) simp_all

lemma twoFields_rejected:
  "validatorEngine [(''a'', [required]), (''b'', [required])] (getFieldsValue twoFields)
     = Rejected (Some [\<lparr>message = ''a is invalid'', field = ''a''\<rparr>])
         (Some [(''a'', [\<lparr>message = ''a is invalid'', field = ''a''\<rparr>])])"
  by (simp add: validatorEngine_def fieldErrors_def required_def getFieldsValue_def
        twoFields_def requiredField_def)

lemma twoFields_descriptor:
  "buildDescriptor twoFields twoFields = Inr [(''a'', [required]), (''b'', [required])]"
  by (simp add: twoFields_def requiredField_def transfromRules_def)



lemma staleFields_eq:
  "staleFields = [(''email'', 
     \<lparr>label = None, name = Some ''email'', value = Some ''a@b.c'', rules = Some [Static required],
      isValid = Some False, errors = Some [\<lparr>message = ''email is invalid'', field = ''email''\<rparr>]\<rparr>)]"
  by (simp add: staleFields_def requiredField_def validateField_def transfromRules_def
        validatorEngine_def fieldErrors_def required_def dispatchAll_def Let_def)

text \<open>
  On every store, when the engine resolves, \<open>validateAllFields\<close> returns
  \<open>isValid = true\<close> and \<open>errors = {}\<close> and dispatches nothing: the store stays as it is.
\<close>

lemma validateAllFields_resolved_no_dispatch:
  assumes "buildDescriptor flds flds = Inr d"
      and "engine d (getFieldsValue flds) = Resolved"
  shows "\<exists>effs. validateAllFields engine flds form
                  = Inr (effs, \<lparr>res_isValid = True, res_errors = Some [],
                                res_values = getFieldsValue flds\<rparr>)
           \<and> dispatched effs = []
           \<and> dispatchAll flds (dispatched effs) = flds"
  using assms
  by (simp add: validateAllFields_def validateAllFields_begin_def validateAllFields_resume_def
        dispatchAll_def)

text \<open>
  C1 (the code at the failing input): the field \<open>email\<close> of \<open>staleFields\<close> is stored
  as invalid, with an error, by an earlier \<open>validateField\<close>, and its value has been
  filled since. The engine resolves for this store, and \<open>validateAllFields\<close> returns
  \<open>isValid = true\<close> and \<open>errors = {}\<close>, but its effects hold no dispatch at all: the
  store after the call still shows \<open>email\<close> as invalid with the old error.
\<close>

theorem validateAllFields_success_keeps_stale_result:
  "map_of staleFields ''email''
     = Some \<lparr>label = None, name = Some ''email'', value = Some ''a@b.c'',
             rules = Some [Static required], isValid = Some False,
             errors = Some [\<lparr>message = ''email is invalid'', field = ''email''\<rparr>]\<rparr>
   \<and> validatorEngine [(''email'', [required])] [(''email'', Some ''a@b.c'')] = Resolved
   \<and> validateAllFields validatorEngine staleFields initialForm
       = Inr ([SetForm (initialForm\<lparr>isSubmitting := True\<rparr>),
               Validate [(''email'', [required])] [(''email'', Some ''a@b.c'')],
               SetForm initialForm],
              \<lparr>res_isValid = True, res_errors = Some [],
               res_values = [(''email'', Some ''a@b.c'')]\<rparr>)
   \<and> dispatched [SetForm (initialForm\<lparr>isSubmitting := True\<rparr>),
                  Validate [(''email'', [required])] [(''email'', Some ''a@b.c'')],
                  SetForm initialForm] = ([] :: (string, string option \<Rightarrow> bool) fields_action list)
   \<and> map_of (dispatchAll staleFields
                (dispatched [SetForm (initialForm\<lparr>isSubmitting := True\<rparr>),
                             Validate [(''email'', [required])] [(''email'', Some ''a@b.c'')],
                             SetForm initialForm])) ''email''
       = Some \<lparr>label = None, name = Some ''email'', value = Some ''a@b.c'',
               rules = Some [Static required], isValid = Some False,
               errors = Some [\<lparr>message = ''email is invalid'', field = ''email''\<rparr>]\<rparr>"
  by (simp add: staleFields_eq validateAllFields_def validateAllFields_begin_def
        validateAllFields_resume_def transfromRules_def getFieldsValue_def dispatchAll_def
        validatorEngine_def fieldErrors_def required_def initialForm_def Let_def)



lemma resume_shape:
  "\<exists>acts f. fst (validateAllFields_resume flds form vm outcome) = map Dispatch acts @ [SetForm f]
     \<and> \<not> isSubmitting f
     \<and> form_isValid f = res_isValid (snd (validateAllFields_resume flds form vm outcome))
     \<and> form_errors f = res_errors (snd (validateAllFields_resume flds form vm outcome))
     \<and> res_values (snd (validateAllFields_resume flds form vm outcome)) = vm
     \<and> res_isValid (snd (validateAllFields_resume flds form vm outcome)) = (outcome = Resolved)"
proof (cases outcome)
  case Resolved
  then show ?thesis
    by (simp add: validateAllFields_resume_def)
next
  case (Rejected es fs)
  then show ?thesis
    by (simp add: validateAllFields_resume_def) blast
qed

lemma applyEffects_dispatches:
  "store_form (applyEffects st (map Dispatch acts @ [SetForm f])) = f
   \<and> store_pending (applyEffects st (map Dispatch acts @ [SetForm f])) = store_pending st"
  by (induction acts arbitrary: st) simp_all

lemma step_invariant:
  assumes "isSubmitting (store_form st) \<longrightarrow> store_pending st \<noteq> []"
  shows "isSubmitting (store_form (step engine st ev)) \<longrightarrow> store_pending (step engine st ev) \<noteq> []"
proof (cases ev)
  case (Act a)
  with assms show ?thesis by simp
next
  case CallValidateAll
  with assms show ?thesis
    by (auto simp: validateAllFields_begin_def split: sum.splits)
next
  case (Settle i)
  show ?thesis
  proof (cases "i < length (store_pending st)")
    case True
    define c where "c = store_pending st ! i"
    obtain acts f where sh:
      "fst (validateAllFields_resume (call_fields c) (call_form c) (call_values c)
             (engine (call_descriptor c) (call_values c))) = map Dispatch acts @ [SetForm f]"
      "\<not> isSubmitting f"
      using resume_shape by blast
    have "store_form (step engine st ev) = f"
      using True sh(1) applyEffects_dispatches [of st acts f]
      by (simp add: Settle c_def Let_def split_beta)
    with sh(2) show ?thesis by simp
  next
    case False
    with assms Settle show ?thesis by simp
  qed
qed

lemma run_invariant:
  "isSubmitting (store_form (run engine evs)) \<longrightarrow> store_pending (run engine evs) \<noteq> []"
proof (induction evs rule: rev_induct)
  case Nil
  show ?case by (simp add: run_def initialStore_def)
next
  case (snoc ev evs)
  have "run engine (evs @ [ev]) = step engine (run engine evs) ev"
    by (simp add: run_def)
  with step_invariant [OF snoc.IH] show ?case by simp
qed

text \<open>
  C5: on a store whose rules all resolve, \<open>validateAllFields\<close> returns, and
  its effects are, in this order: \<open>setForm\<close> with \<open>isSubmitting = true\<close>, the one
  call of the engine, the dispatches, and a last \<open>setForm\<close> with \<open>isSubmitting = false\<close>
  and the \<open>isValid\<close> and \<open>errors\<close> of the returned result, whose \<open>values\<close> are the value
  map; this holds whether the engine resolves or rejects. Over time, with calls that
  are suspended at their \<open>await\<close> while actions and other calls go on: whenever
  \<open>isSubmitting\<close> is true, some call of \<open>validateAllFields\<close> is in flight. (On any
  other store the call throws while it builds the descriptor, before the first
  \<open>setForm\<close>, and has no effect.)
\<close>

theorem validateAllFields_isSubmitting:
  "(rulesResolve flds \<longrightarrow>
      (\<exists>d acts f res.
         validateAllFields engine flds form
           = Inr (SetForm (form\<lparr>isSubmitting := True\<rparr>) # Validate d (getFieldsValue flds)
                    # map Dispatch acts @ [SetForm f], res)
         \<and> \<not> isSubmitting f
         \<and> formAfter form (SetForm (form\<lparr>isSubmitting := True\<rparr>) # Validate d (getFieldsValue flds)
                    # map Dispatch acts @ [SetForm f]) = f
         \<and> form_isValid f = res_isValid res \<and> form_errors f = res_errors res
         \<and> res_values res = getFieldsValue flds
         \<and> res_isValid res = (engine d (getFieldsValue flds) = Resolved)))
   \<and> (isSubmitting (store_form (run engine evs)) \<longrightarrow> store_pending (run engine evs) \<noteq> [])
   \<and> (\<not> rulesResolve flds \<longrightarrow> (\<exists>e. validateAllFields engine flds form = Inl e))"
proof (intro conjI impI)
  assume "\<not> rulesResolve flds"
  then have "\<exists>e. buildDescriptor flds flds = Inl e"
    unfolding rulesResolve_iff by (cases "buildDescriptor flds flds") auto
  then show "\<exists>e. validateAllFields engine flds form = Inl e"
    by (auto simp: validateAllFields_def validateAllFields_begin_def)
next
  assume "rulesResolve flds"
  then obtain d where d: "buildDescriptor flds flds = Inr d"
    unfolding rulesResolve_iff by blast
  let ?vm = "getFieldsValue flds"
  obtain acts f where sh:
    "fst (validateAllFields_resume flds form ?vm (engine d ?vm)) = map Dispatch acts @ [SetForm f]"
    "\<not> isSubmitting f"
    "form_isValid f = res_isValid (snd (validateAllFields_resume flds form ?vm (engine d ?vm)))"
    "form_errors f = res_errors (snd (validateAllFields_resume flds form ?vm (engine d ?vm)))"
    "res_values (snd (validateAllFields_resume flds form ?vm (engine d ?vm))) = ?vm"
    "res_isValid (snd (validateAllFields_resume flds form ?vm (engine d ?vm))) = (engine d ?vm = Resolved)"
    using resume_shape [of flds form ?vm "engine d ?vm"] by blast
  have fa: "formAfter g (map Dispatch acts @ [SetForm f]) = f" for g
    by (induction acts) simp_all
  have run: "validateAllFields engine flds form
           = Inr (SetForm (form\<lparr>isSubmitting := True\<rparr>) # Validate d ?vm
                    # map Dispatch acts @ [SetForm f],
                  snd (validateAllFields_resume flds form ?vm (engine d ?vm)))"
    using d sh(1) by (simp add: validateAllFields_def validateAllFields_begin_def split_beta)
  show "\<exists>d acts f res.
         validateAllFields engine flds form
           = Inr (SetForm (form\<lparr>isSubmitting := True\<rparr>) # Validate d (getFieldsValue flds)
                    # map Dispatch acts @ [SetForm f], res)
         \<and> \<not> isSubmitting f
         \<and> formAfter form (SetForm (form\<lparr>isSubmitting := True\<rparr>) # Validate d (getFieldsValue flds)
                    # map Dispatch acts @ [SetForm f]) = f
         \<and> form_isValid f = res_isValid res \<and> form_errors f = res_errors res
         \<and> res_values res = getFieldsValue flds
         \<and> res_isValid res = (engine d (getFieldsValue flds) = Resolved)"
    using run sh(2-6) fa
    by (intro exI [of _ d] exI [of _ acts] exI [of _ f]
          exI [of _ "snd (validateAllFields_resume flds form ?vm (engine d ?vm))"]) simp
next
  assume "isSubmitting (store_form (run engine evs))"
  with run_invariant show "store_pending (run engine evs) \<noteq> []" by blast
qed

theorem validateAllFields_isSubmitting_witness:
  "rulesResolve twoFields
   \<and> (\<exists>d acts f res.
         validateAllFields validatorEngine twoFields initialForm
           = Inr (SetForm (initialForm\<lparr>isSubmitting := True\<rparr>) # Validate d (getFieldsValue twoFields)
                    # map Dispatch acts @ [SetForm f], res)
         \<and> \<not> isSubmitting f)
   \<and> isSubmitting (store_form (run validatorEngine
         [Act (AddField ''a'' (requiredField ''a'' '''')), CallValidateAll]))
   \<and> store_pending (run validatorEngine
         [Act (AddField ''a'' (requiredField ''a'' '''')), CallValidateAll]) \<noteq> []
   \<and> \<not> isSubmitting (store_form (run validatorEngine
         [Act (AddField ''a'' (requiredField ''a'' '''')), CallValidateAll, Settle 0]))
   \<and> \<not> rulesResolve confirmOnly
   \<and> (\<exists>e. validateAllFields validatorEngine confirmOnly initialForm = Inl e)"
proof -
  have untyped: "\<not> rulesResolve confirmOnly"
    by (simp add: rulesResolve_def confirmOnly_def transfromRules_def lengthOfPassword_def
          getFieldValue_def)
  from validateAllFields_isSubmitting [of confirmOnly validatorEngine initialForm "[]"] untyped
  have throws: "\<exists>e. validateAllFields validatorEngine confirmOnly initialForm = Inl e"
    by blast
  have typed: "rulesResolve twoFields"
    by (simp add: rulesResolve_def twoFields_def requiredField_def transfromRules_def)
  have sub: "isSubmitting (store_form (run validatorEngine
         [Act (AddField ''a'' (requiredField ''a'' '''')), CallValidateAll]))"
    by (simp add: run_def initialStore_def validateAllFields_begin_def requiredField_def
          transfromRules_def)
  have fin: "\<not> isSubmitting (store_form (run validatorEngine
         [Act (AddField ''a'' (requiredField ''a'' '''')), CallValidateAll, Settle 0]))"
    by (simp add: run_def initialStore_def validateAllFields_begin_def requiredField_def
          transfromRules_def validateAllFields_resume_def validatorEngine_def fieldErrors_def
          getFieldsValue_def required_def Let_def)
  from validateAllFields_isSubmitting
         [of twoFields validatorEngine initialForm
             "[Act (AddField ''a'' (requiredField ''a'' '''')), CallValidateAll]"]
       typed sub
  have "(\<exists>d acts f res.
         validateAllFields validatorEngine twoFields initialForm
           = Inr (SetForm (initialForm\<lparr>isSubmitting := True\<rparr>) # Validate d (getFieldsValue twoFields)
                    # map Dispatch acts @ [SetForm f], res)
         \<and> \<not> isSubmitting f)
     \<and> store_pending (run validatorEngine
         [Act (AddField ''a'' (requiredField ''a'' '''')), CallValidateAll]) \<noteq> []"
    by blast
  with typed sub fin untyped throws show ?thesis by blast
qed


section \<open>Repeating validateAllFields\<close>

lemma update_same_projection:
  "map_of S n = Some f \<Longrightarrow> h f' = h f \<Longrightarrow>
   map (\<lambda>(k, x). (k, h x)) (AList.update n f' S) = map (\<lambda>(k, x). (k, h x)) S"
  by (induction S) (auto split: if_splits)

lemma result_dispatch_keeps_values_and_rules:
  assumes "map_of S n = Some f"
  shows "map (\<lambda>(k, x). (k, value x, rules x)) (fieldsReducer S (UpdateValidateResult n b es))
           = map (\<lambda>(k, x). (k, value x, rules x)) S"
  using update_same_projection
          [OF assms, of "\<lambda>x. (value x, rules x)" "f\<lparr>isValid := Some b, errors := es\<rparr>"] assms
  by simp

lemma projection_keys:
  "map (\<lambda>(k, x). (k, value x, rules x)) S' = map (\<lambda>(k, x). (k, value x, rules x)) S \<Longrightarrow>
   map fst S' = map fst S"
  by (induction S arbitrary: S') (auto simp: map_eq_Cons_conv)

lemma result_dispatches_keep_values_and_rules:
  "\<forall>a \<in> set acts. (case a of UpdateValidateResult n b es \<Rightarrow> n \<in> fst ` set S | _ \<Rightarrow> False) \<Longrightarrow>
   map (\<lambda>(k, x). (k, value x, rules x)) (foldl fieldsReducer S acts)
     = map (\<lambda>(k, x). (k, value x, rules x)) S"
proof (induction acts arbitrary: S)
  case Nil
  show ?case by simp
next
  case (Cons a acts)
  from Cons.prems obtain n b es where a: "a = UpdateValidateResult n b es" and n: "n \<in> fst ` set S"
    by (cases a) simp_all
  from n have "map_of S n \<noteq> None"
    by (simp add: map_of_eq_None_iff)
  then obtain f where f: "map_of S n = Some f"
    by blast
  define S1 where "S1 = fieldsReducer S a"
  have S1: "map (\<lambda>(k, x). (k, value x, rules x)) S1 = map (\<lambda>(k, x). (k, value x, rules x)) S"
    unfolding S1_def a by (rule result_dispatch_keeps_values_and_rules [OF f])
  have "map fst S1 = map fst S"
    by (rule projection_keys [OF S1])
  then have "set (map fst S1) = set (map fst S)"
    by simp
  then have keys: "fst ` set S1 = fst ` set S"
    by (simp only: set_map)
  from Cons.prems have "\<forall>a \<in> set acts. (case a of UpdateValidateResult n b es \<Rightarrow> n \<in> fst ` set S1 | _ \<Rightarrow> False)"
    unfolding keys by simp
  from Cons.IH [OF this] S1 show ?case by (simp add: S1_def)
qed

lemma getFieldValue_projection:
  "getFieldValue S key
     = (case map_of (map (\<lambda>(k, x). (k, value x, rules x)) S) key of
          None \<Rightarrow> None
        | Some (v, r) \<Rightarrow> v)"
  unfolding getFieldValue_def by (induction S) auto

lemma getFieldsValue_projection:
  "getFieldsValue S = map (\<lambda>(k, v, r). (k, v)) (map (\<lambda>(k, x). (k, value x, rules x)) S)"
  unfolding getFieldsValue_def by (induction S) auto

lemma buildDescriptor_projection:
  "getFieldValue S' = getFieldValue S \<Longrightarrow>
   map (\<lambda>(k, x). (k, value x, rules x)) rest' = map (\<lambda>(k, x). (k, value x, rules x)) rest \<Longrightarrow>
   buildDescriptor S' rest' = buildDescriptor S rest"
proof (induction rest arbitrary: rest')
  case Nil
  then show ?case by simp
next
  case (Cons p rest)
  from Cons.prems(2) obtain p' rest1 where r': "rest' = p' # rest1"
    by (cases rest') auto
  obtain k x where p: "p = (k, x)" by (cases p)
  obtain k' x' where p': "p' = (k', x')" by (cases p')
  from Cons.prems(2) r' p p' have k: "k' = k" and rl: "rules x' = rules x"
    and tl: "map (\<lambda>(k, x). (k, value x, rules x)) rest1 = map (\<lambda>(k, x). (k, value x, rules x)) rest"
    by auto
  have tr: "transfromRules S' (rules x') = transfromRules S (rules x)"
    by (cases "rules x") (simp_all add: transfromRules_def rl Cons.prems(1))
  from Cons.IH [OF Cons.prems(1) tl] tr k show ?case
    by (simp add: r' p p' split: sum.splits)
qed

lemma redistribute_results:
  "a \<in> set (redistribute errs rest) \<Longrightarrow> (case a of UpdateValidateResult n b es \<Rightarrow> n \<in> fst ` set rest | _ \<Rightarrow> False)"
  by (induction rest) (auto split: option.splits if_splits fields_action.splits)

lemma resume_result_independent:
  "snd (validateAllFields_resume flds' form' vm outcome)
     = snd (validateAllFields_resume flds form vm outcome)"
  by (cases outcome) (simp_all add: validateAllFields_resume_def)

lemma resume_dispatches:
  assumes "a \<in> set (dispatched (fst (validateAllFields_resume flds form vm outcome)))"
  shows "(case a of UpdateValidateResult n b es \<Rightarrow> n \<in> fst ` set flds | _ \<Rightarrow> False)"
proof (cases outcome)
  case Resolved
  with assms show ?thesis by (simp add: validateAllFields_resume_def)
next
  case (Rejected es fs)
  show ?thesis
  proof (cases fs)
    case None
    with assms Rejected show ?thesis by (simp add: validateAllFields_resume_def)
  next
    case (Some errs)
    with assms Rejected have "a \<in> set (redistribute errs flds)"
      by (simp add: validateAllFields_resume_def dispatched_map_Dispatch)
    then show ?thesis
      by (rule redistribute_results)
  qed
qed

lemma validateAllFields_twice:
  assumes "rulesResolve flds"
  shows "\<exists>effs res effs'.
           validateAllFields engine flds form = Inr (effs, res)
         \<and> validateAllFields engine (dispatchAll flds (dispatched effs)) (formAfter form effs)
             = Inr (effs', res)
         \<and> getFieldsValue (dispatchAll flds (dispatched effs)) = getFieldsValue flds
         \<and> buildDescriptor (dispatchAll flds (dispatched effs)) (dispatchAll flds (dispatched effs))
             = buildDescriptor flds flds"
proof -
  from assms obtain d where d: "buildDescriptor flds flds = Inr d"
    unfolding rulesResolve_iff by blast
  let ?vm = "getFieldsValue flds"
  let ?r = "validateAllFields_resume flds form ?vm (engine d ?vm)"
  let ?effs = "SetForm (form\<lparr>isSubmitting := True\<rparr>) # Validate d ?vm # fst ?r"
  have first: "validateAllFields engine flds form = Inr (?effs, snd ?r)"
    using d by (simp add: validateAllFields_def validateAllFields_begin_def split_beta)
  define S' where "S' = dispatchAll flds (dispatched ?effs)"
  have acts: "\<forall>a \<in> set (dispatched ?effs). (case a of UpdateValidateResult n b es \<Rightarrow> n \<in> fst ` set flds | _ \<Rightarrow> False)"
    using resume_dispatches [of _ flds form ?vm "engine d ?vm"] by simp
  have proj: "map (\<lambda>(k, x). (k, value x, rules x)) S' = map (\<lambda>(k, x). (k, value x, rules x)) flds"
    unfolding S'_def dispatchAll_def by (rule result_dispatches_keep_values_and_rules [OF acts])
  have vm: "getFieldsValue S' = ?vm"
    by (simp only: getFieldsValue_projection proj)
  have acc: "getFieldValue S' = getFieldValue flds"
    by (rule ext) (simp only: getFieldValue_projection proj)
  have desc: "buildDescriptor S' S' = buildDescriptor flds flds"
    by (rule buildDescriptor_projection [OF acc proj])
  let ?form' = "formAfter form ?effs"
  let ?r' = "validateAllFields_resume S' ?form' ?vm (engine d ?vm)"
  have second: "validateAllFields engine S' ?form'
                  = Inr (SetForm (?form'\<lparr>isSubmitting := True\<rparr>) # Validate d ?vm # fst ?r', snd ?r')"
    using d by (simp add: validateAllFields_def validateAllFields_begin_def split_beta desc vm)
  have same: "snd ?r' = snd ?r"
    by (rule resume_result_independent)
  show ?thesis
  proof (intro exI conjI)
    show "validateAllFields engine flds form = Inr (?effs, snd ?r)"
      by (rule first)
    show "validateAllFields engine (dispatchAll flds (dispatched ?effs)) (formAfter form ?effs)
            = Inr (SetForm (?form'\<lparr>isSubmitting := True\<rparr>) # Validate d ?vm # fst ?r', snd ?r)"
      using second same unfolding S'_def by simp
    show "getFieldsValue (dispatchAll flds (dispatched ?effs)) = getFieldsValue flds"
      using vm unfolding S'_def .
    show "buildDescriptor (dispatchAll flds (dispatched ?effs)) (dispatchAll flds (dispatched ?effs))
            = buildDescriptor flds flds"
      using desc unfolding S'_def .
  qed
qed

lemma validateAllFields_Inr_resolve:
  "validateAllFields engine flds form = Inr out \<Longrightarrow> rulesResolve flds"
  unfolding rulesResolve_iff
  by (auto simp: validateAllFields_def validateAllFields_begin_def split: sum.splits)

text \<open>
  C7: whenever \<open>validateAllFields\<close> returns a result, a second call, made on the store
  and the form state that the first call's effects leave behind, returns the same
  \<open>{isValid, errors, values}\<close>, the engine being a function of the descriptor and the
  value map: the dispatches of the first call leave the value map and the descriptor
  of the store as they were. On a store whose rules all resolve the first call does
  return a result.
\<close>

theorem validateAllFields_idempotent:
  "(rulesResolve flds \<longrightarrow> (\<exists>effs res. validateAllFields engine flds form = Inr (effs, res)))
   \<and> (\<forall>effs res. validateAllFields engine flds form = Inr (effs, res) \<longrightarrow>
         (\<exists>effs'. validateAllFields engine (dispatchAll flds (dispatched effs))
                    (formAfter form effs) = Inr (effs', res))
       \<and> getFieldsValue (dispatchAll flds (dispatched effs)) = getFieldsValue flds
       \<and> buildDescriptor (dispatchAll flds (dispatched effs)) (dispatchAll flds (dispatched effs))
           = buildDescriptor flds flds)"
proof (intro conjI impI allI)
  assume "rulesResolve flds"
  from validateAllFields_twice [OF this, of engine form]
  show "\<exists>effs res. validateAllFields engine flds form = Inr (effs, res)"
    by blast
next
  fix effs res
  assume run: "validateAllFields engine flds form = Inr (effs, res)"
  then have "rulesResolve flds"
    by (rule validateAllFields_Inr_resolve)
  from validateAllFields_twice [OF this, of engine form] run
  have twice: "(\<exists>effs'. validateAllFields engine (dispatchAll flds (dispatched effs))
                    (formAfter form effs) = Inr (effs', res))
       \<and> getFieldsValue (dispatchAll flds (dispatched effs)) = getFieldsValue flds
       \<and> buildDescriptor (dispatchAll flds (dispatched effs)) (dispatchAll flds (dispatched effs))
           = buildDescriptor flds flds"
    by auto
  from twice show "\<exists>effs'. validateAllFields engine (dispatchAll flds (dispatched effs))
                    (formAfter form effs) = Inr (effs', res)"
    by blast
  from twice show "getFieldsValue (dispatchAll flds (dispatched effs)) = getFieldsValue flds"
    by blast
  from twice
  show "buildDescriptor (dispatchAll flds (dispatched effs)) (dispatchAll flds (dispatched effs))
           = buildDescriptor flds flds"
    by blast
qed

theorem validateAllFields_idempotent_witness:
  "rulesResolve twoFields
   \<and> (\<exists>effs effs'.
         validateAllFields validatorEngine twoFields initialForm
           = Inr (effs, \<lparr>res_isValid = False,
                         res_errors = Some [(''a'', [\<lparr>message = ''a is invalid'', field = ''a''\<rparr>])],
                         res_values = [(''a'', Some ''''), (''b'', Some ''filled'')]\<rparr>)
       \<and> validateAllFields validatorEngine (dispatchAll twoFields (dispatched effs))
             (formAfter initialForm effs)
           = Inr (effs', \<lparr>res_isValid = False,
                          res_errors = Some [(''a'', [\<lparr>message = ''a is invalid'', field = ''a''\<rparr>])],
                          res_values = [(''a'', Some ''''), (''b'', Some ''filled'')]\<rparr>))"
proof -
  have typed: "rulesResolve twoFields"
    by (simp add: rulesResolve_def twoFields_def requiredField_def transfromRules_def)
  have vm: "getFieldsValue twoFields = [(''a'', Some ''''), (''b'', Some ''filled'')]"
    by (simp add: getFieldsValue_def twoFields_def requiredField_def)
  have first: "snd (projr (validateAllFields validatorEngine twoFields initialForm))
     = \<lparr>res_isValid = False,
        res_errors = Some [(''a'', [\<lparr>message = ''a is invalid'', field = ''a''\<rparr>])],
        res_values = [(''a'', Some ''''), (''b'', Some ''filled'')]\<rparr>"
    using twoFields_rejected
    by (simp add: validateAllFields_def validateAllFields_begin_def twoFields_descriptor
          validateAllFields_resume_def vm)
  note inst = validateAllFields_idempotent [of twoFields validatorEngine initialForm]
  from inst typed obtain effs res where run1:
    "validateAllFields validatorEngine twoFields initialForm = Inr (effs, res)"
    by blast
  with inst obtain effs' where run2:
    "validateAllFields validatorEngine (dispatchAll twoFields (dispatched effs))
       (formAfter initialForm effs) = Inr (effs', res)"
    by blast
  note run = run1 run2
  from run(1) first have "res = \<lparr>res_isValid = False,
        res_errors = Some [(''a'', [\<lparr>message = ''a is invalid'', field = ''a''\<rparr>])],
        res_values = [(''a'', Some ''''), (''b'', Some ''filled'')]\<rparr>"
    by simp
  with run typed show ?thesis by blast
qed


section \<open>Properties of submitForm\<close>

lemma confirmOnly_throws:
  "validateAllFields validatorEngine confirmOnly initialForm = Inl TypeError"
  by (simp add: validateAllFields_def validateAllFields_begin_def confirmOnly_def
        transfromRules_def lengthOfPassword_def getFieldValue_def)

text \<open>
  C9 (as the claim states it, refuted): on the store \<open>confirmOnly\<close>, where the rule
  generator of \<open>confirm\<close> throws, a submission with both callbacks supplied calls
  \<open>preventDefault\<close> and \<open>stopPropagation\<close> and then neither callback: \<open>validateAllFields\<close>
  throws, and the handler, which has no \<open>catch\<close>, rejects with the error.
\<close>

theorem submitForm_no_callback_when_rules_throw:
  "submitForm validatorEngine confirmOnly initialForm True True
     = ([PreventDefault, StopPropagation], Some TypeError)"
  by (simp add: submitForm_def confirmOnly_throws)

text \<open>
  C9 (amended): on every submission \<open>submitForm\<close> first calls \<open>preventDefault\<close> and
  \<open>stopPropagation\<close> on the event and then awaits \<open>validateAllFields\<close>. When that call
  returns, which it does exactly on the stores whose rules all resolve, all its
  effects come next and then, with both callbacks supplied, exactly one call of a
  callback as the last effect: \<open>onFinish(values)\<close> if the returned \<open>isValid\<close> is true,
  and \<open>onFinishFailed(values, errors)\<close> otherwise; no error is raised. (Both props are
  optional: in general the one callback that the result selects is called if it was
  supplied, and the other one never.) When \<open>validateAllFields\<close> throws, no callback is
  called and the handler raises the same error.
\<close>

theorem submitForm_one_callback:
  "(\<forall>e. validateAllFields engine flds form = Inl e \<longrightarrow>
        submitForm engine flds form onFinish onFinishFailed
          = ([PreventDefault, StopPropagation], Some e))
   \<and> (\<forall>effs res. validateAllFields engine flds form = Inr (effs, res) \<longrightarrow>
          submitForm engine flds form True True
            = ([PreventDefault, StopPropagation] @ map Store effs
                 @ [if res_isValid res then OnFinish (res_values res)
                    else OnFinishFailed (res_values res) (res_errors res)],
               None)
        \<and> submitForm engine flds form onFinish onFinishFailed
            = ([PreventDefault, StopPropagation] @ map Store effs
                 @ (if res_isValid res
                    then (if onFinish then [OnFinish (res_values res)] else [])
                    else (if onFinishFailed
                          then [OnFinishFailed (res_values res) (res_errors res)] else [])),
               None))
   \<and> ((\<exists>effs res. validateAllFields engine flds form = Inr (effs, res)) \<longleftrightarrow> rulesResolve flds)"
proof (intro conjI allI impI)
  fix e assume "validateAllFields engine flds form = Inl e"
  then show "submitForm engine flds form onFinish onFinishFailed
               = ([PreventDefault, StopPropagation], Some e)"
    by (simp add: submitForm_def)
next
  fix effs res assume run: "validateAllFields engine flds form = Inr (effs, res)"
  from run show "submitForm engine flds form True True
            = ([PreventDefault, StopPropagation] @ map Store effs
                 @ [if res_isValid res then OnFinish (res_values res)
                    else OnFinishFailed (res_values res) (res_errors res)],
               None)"
    by (simp add: submitForm_def)
  from run show "submitForm engine flds form onFinish onFinishFailed
            = ([PreventDefault, StopPropagation] @ map Store effs
                 @ (if res_isValid res
                    then (if onFinish then [OnFinish (res_values res)] else [])
                    else (if onFinishFailed
                          then [OnFinishFailed (res_values res) (res_errors res)] else [])),
               None)"
    by (simp add: submitForm_def)
next
  show "(\<exists>effs res. validateAllFields engine flds form = Inr (effs, res)) \<longleftrightarrow> rulesResolve flds"
  proof
    assume "\<exists>effs res. validateAllFields engine flds form = Inr (effs, res)"
    then show "rulesResolve flds"
      using validateAllFields_Inr_resolve by blast
  next
    assume "rulesResolve flds"
    then obtain d where "buildDescriptor flds flds = Inr d"
      unfolding rulesResolve_iff by blast
    then show "\<exists>effs res. validateAllFields engine flds form = Inr (effs, res)"
      by (simp add: validateAllFields_def validateAllFields_begin_def split_beta)
  qed
qed

theorem submitForm_one_callback_witness:
  "rulesResolve twoFields
   \<and> (\<exists>effs. validateAllFields validatorEngine twoFields initialForm
               = Inr (effs, \<lparr>res_isValid = False,
                             res_errors = Some [(''a'', [\<lparr>message = ''a is invalid'', field = ''a''\<rparr>])],
                             res_values = [(''a'', Some ''''), (''b'', Some ''filled'')]\<rparr>)
          \<and> submitForm validatorEngine twoFields initialForm True True
              = ([PreventDefault, StopPropagation] @ map Store effs
                   @ [OnFinishFailed [(''a'', Some ''''), (''b'', Some ''filled'')]
                        (Some [(''a'', [\<lparr>message = ''a is invalid'', field = ''a''\<rparr>])])],
                 None))
   \<and> validateAllFields validatorEngine confirmOnly initialForm = Inl TypeError
   \<and> submitForm validatorEngine confirmOnly initialForm False True
       = ([PreventDefault, StopPropagation], Some TypeError)"
proof -
  have typed: "rulesResolve twoFields"
    by (simp add: rulesResolve_def twoFields_def requiredField_def transfromRules_def)
  have vm: "getFieldsValue twoFields = [(''a'', Some ''''), (''b'', Some ''filled'')]"
    by (simp add: getFieldsValue_def twoFields_def requiredField_def)
  have first: "snd (projr (validateAllFields validatorEngine twoFields initialForm))
     = \<lparr>res_isValid = False,
        res_errors = Some [(''a'', [\<lparr>message = ''a is invalid'', field = ''a''\<rparr>])],
        res_values = [(''a'', Some ''''), (''b'', Some ''filled'')]\<rparr>"
    using twoFields_rejected
    by (simp add: validateAllFields_def validateAllFields_begin_def twoFields_descriptor
          validateAllFields_resume_def vm)
  note two = submitForm_one_callback [of validatorEngine twoFields initialForm True True]
  from two typed obtain effs res where
    run: "validateAllFields validatorEngine twoFields initialForm = Inr (effs, res)"
    by blast
  with two have sub: "submitForm validatorEngine twoFields initialForm True True
       = ([PreventDefault, StopPropagation] @ map Store effs
            @ [if res_isValid res then OnFinish (res_values res)
               else OnFinishFailed (res_values res) (res_errors res)],
          None)"
    by blast
  from run first have res: "res = \<lparr>res_isValid = False,
        res_errors = Some [(''a'', [\<lparr>message = ''a is invalid'', field = ''a''\<rparr>])],
        res_values = [(''a'', Some ''''), (''b'', Some ''filled'')]\<rparr>"
    by simp
  from submitForm_one_callback [of validatorEngine confirmOnly initialForm False True]
       confirmOnly_throws
  have thr: "submitForm validatorEngine confirmOnly initialForm False True
       = ([PreventDefault, StopPropagation], Some TypeError)"
    by blast
  from run sub res have "\<exists>effs. validateAllFields validatorEngine twoFields initialForm
               = Inr (effs, \<lparr>res_isValid = False,
                             res_errors = Some [(''a'', [\<lparr>message = ''a is invalid'', field = ''a''\<rparr>])],
                             res_values = [(''a'', Some ''''), (''b'', Some ''filled'')]\<rparr>)
          \<and> submitForm validatorEngine twoFields initialForm True True
              = ([PreventDefault, StopPropagation] @ map Store effs
                   @ [OnFinishFailed [(''a'', Some ''''), (''b'', Some ''filled'')]
                        (Some [(''a'', [\<lparr>message = ''a is invalid'', field = ''a''\<rparr>])])],
                 None)"
    by auto
  with typed confirmOnly_throws thr show ?thesis by blast
qed

end
